theory Spec2Isabelle
  imports Complex_Main "HOL-Library.AList"
begin

section \<open>JavaScript values used by the model\<close>

text \<open>
  Times are milliseconds since the epoch as returned by \<^verbatim>\<open>Date.now()\<close>; every configured
  duration is read with \<^verbatim>\<open>parseInt\<close>, so both are integers. Each call of
  \<^verbatim>\<open>Date.now()\<close> in the source is an explicit time argument of the model.

  A JavaScript \<^verbatim>\<open>Map\<close> is an association list in insertion order with one pair per key:
  \<^verbatim>\<open>Map.set\<close> is \<^const>\<open>AList.update\<close> (an existing key keeps its place, a new key
  goes to the end), \<^verbatim>\<open>Map.delete\<close> is \<^const>\<open>AList.delete\<close>, \<^verbatim>\<open>Map.get\<close> is
  \<^const>\<open>map_of\<close> and \<^verbatim>\<open>Map.size\<close> is \<^const>\<open>length\<close>.
\<close>

type_synonym ('k, 'v) jsmap = "('k \<times> 'v) list"

definition map_has :: "('k, 'v) jsmap \<Rightarrow> 'k \<Rightarrow> bool" where
  "map_has m k = (map_of m k \<noteq> None)"

definition wf_map :: "('k, 'v) jsmap \<Rightarrow> bool" where
  "wf_map m = distinct (map fst m)"

section \<open>utils/cache.ts: the TTL cache\<close>

record 'a CacheEntry =
  entryValue :: 'a
  expiresAt :: int

type_synonym 'a cache = "(string, 'a CacheEntry) jsmap"

text \<open>\<^verbatim>\<open>set(key, value, ttlMs)\<close>; \<open>now\<close> is the value of \<^verbatim>\<open>Date.now()\<close>.\<close>

definition cache_set :: "'a cache \<Rightarrow> string \<Rightarrow> 'a \<Rightarrow> int \<Rightarrow> int \<Rightarrow> 'a cache" where
  "cache_set c key v ttlMs now =
     (let expiresAt = now + ttlMs
      in AList.update key \<lparr>entryValue = v, expiresAt = expiresAt\<rparr> c)"

text \<open>\<^verbatim>\<open>get(key)\<close>: the result (\<open>None\<close> is \<^verbatim>\<open>null\<close>) and the cache afterwards.\<close>

definition cache_get :: "'a cache \<Rightarrow> string \<Rightarrow> int \<Rightarrow> 'a option \<times> 'a cache" where
  "cache_get c key now =
     (case map_of c key of
        None \<Rightarrow> (None, c)
      | Some entry \<Rightarrow>
          if now > expiresAt entry then (None, AList.delete key c)
          else (Some (entryValue entry), c))"

text \<open>\<^verbatim>\<open>delete(key)\<close>: what \<^verbatim>\<open>Map.delete\<close> returns, and the cache afterwards.\<close>

definition cache_delete :: "'a cache \<Rightarrow> string \<Rightarrow> bool \<times> 'a cache" where
  "cache_delete c key = (map_has c key, AList.delete key c)"

definition cache_clear :: "'a cache \<Rightarrow> 'a cache" where
  "cache_clear c = []"

definition cache_size :: "'a cache \<Rightarrow> nat" where
  "cache_size c = length c"






section \<open>JavaScript strings, truthiness and errors\<close>

text \<open>
  A string is the list of its code units. \<^verbatim>\<open>s.startsWith(p)\<close> and \<^verbatim>\<open>s.includes(p)\<close>
  compare code units.
\<close>

definition startsWith :: "'c list \<Rightarrow> 'c list \<Rightarrow> bool" where
  "startsWith s p = (take (length p) s = p)"

fun str_includes :: "'c list \<Rightarrow> 'c list \<Rightarrow> bool" where
  "str_includes [] p = (p = [])"
| "str_includes (x # xs) p = (startsWith (x # xs) p \<or> str_includes xs p)"

text \<open>
  A value of type \<^verbatim>\<open>string | undefined\<close> (or \<^verbatim>\<open>string | null\<close>) is a \<open>string option\<close>; it
  is truthy when it is a non-empty string. \<^verbatim>\<open>a || b\<close> is \<open>js_or a b\<close>.
\<close>

fun truthy :: "'c list option \<Rightarrow> bool" where
  "truthy None = False"
| "truthy (Some s) = (s \<noteq> [])"

definition js_or :: "'c list option \<Rightarrow> 'c list option \<Rightarrow> 'c list option" where
  "js_or a b = (if truthy a then a else b)"

text \<open>
  The request configuration of axios, with the parts the interceptors read and write:
  \<^verbatim>\<open>config.url\<close>, \<^verbatim>\<open>config.timeout\<close>, \<^verbatim>\<open>config.headers['Authorization']\<close> and
  \<^verbatim>\<open>config.headers['X-Retry']\<close>.
\<close>

record request_config =
  url :: "string option"
  timeout :: "int option"
  Authorization :: "string option"
  X_Retry :: "string option"

text \<open>
  A thrown value: the properties of the error object the code reads.
  \<open>isAxiosError\<close> is what \<^verbatim>\<open>axios.isAxiosError(error)\<close> answers and \<open>response_status\<close>
  is \<^verbatim>\<open>error.response?.status\<close> (\<open>None\<close> when the error carries no response).
  \<^verbatim>\<open>error.config\<close> is the configuration of the request that failed, which axios attaches
  to the error of a dispatched request; it is passed along with the error.
\<close>

record js_error =
  message :: string
  code :: "string option"
  isAxiosError :: bool
  response_status :: "nat option"
  isTimeout :: bool
  isNetworkError :: bool

text \<open>\<^verbatim>\<open>new Error(msg)\<close>.\<close>

definition new_Error :: "string \<Rightarrow> js_error" where
  "new_Error msg =
     \<lparr>message = msg, code = None, isAxiosError = False, response_status = None,
      isTimeout = False, isNetworkError = False\<rparr>"

section \<open>api/auth.ts: the credential manager\<close>

text \<open>The fields of \<^verbatim>\<open>efecteConfig\<close> that auth.ts reads.\<close>

record auth_config =
  tokenRefreshThreshold :: int
  authTokenTTL :: int

text \<open>
  The state of an \<^verbatim>\<open>AuthManager\<close>. \<open>authPromise\<close> is \<open>None\<close> for \<^verbatim>\<open>null\<close> and
  \<open>Some p\<close> for the promise of the \<open>p\<close>-th call of \<^verbatim>\<open>authenticate()\<close>.
  \<open>loginCalls\<close> counts the calls of \<^verbatim>\<open>authenticate()\<close>, each of which posts one
  request to \<^verbatim>\<open>users/login\<close>; the code does not hold it.
\<close>

record auth_state =
  tokenCache :: "string cache"
  tokenExpiresAt :: int
  authPromise :: "nat option"
  loginCalls :: nat

definition new_AuthManager :: auth_state where
  "new_AuthManager = \<lparr>tokenCache = [], tokenExpiresAt = 0, authPromise = None, loginCalls = 0\<rparr>"

text \<open>
  What the awaited \<^verbatim>\<open>axios.post\<close> of \<^verbatim>\<open>authenticate()\<close> gives: a response with
  \<^verbatim>\<open>response.data.token\<close> and \<^verbatim>\<open>response.headers['authorization']\<close>, or a rejection.
\<close>

datatype login_outcome =
    LoginResolved "string option" "string option"
  | LoginRejected js_error

text \<open>The \<^verbatim>\<open>catch\<close> block of \<^verbatim>\<open>authenticate()\<close>: the error it throws for a caught one.\<close>

definition authenticate_catch :: "js_error \<Rightarrow> js_error" where
  "authenticate_catch error =
     (if isAxiosError error then
        (if response_status error = Some 401 then new_Error ''Invalid credentials''
         else new_Error (''Authentication failed: '' @ message error))
      else error)"

text \<open>
  \<^verbatim>\<open>authenticate()\<close> from the point where the login request has been answered.
  \<open>t_set\<close> is the clock read inside \<^verbatim>\<open>tokenCache.set\<close>, \<open>t_exp\<close> the one read for
  \<^verbatim>\<open>tokenExpiresAt\<close>. \<open>Inl\<close> is the rejection of the promise, \<open>Inr\<close> its value.
\<close>

definition authenticate_complete ::
  "auth_config \<Rightarrow> auth_state \<Rightarrow> login_outcome \<Rightarrow> int \<Rightarrow> int \<Rightarrow> (js_error + string) \<times> auth_state"
where
  "authenticate_complete cfg s outcome t_set t_exp =
     (case outcome of
        LoginRejected error \<Rightarrow> (Inl (authenticate_catch error), s)
      | LoginResolved data_token header_authorization \<Rightarrow>
          (case js_or data_token header_authorization of
             None \<Rightarrow>
               (Inl (authenticate_catch
                  (new_Error ''No token received from authentication endpoint'')), s)
           | Some token \<Rightarrow>
               if token = [] then
                 (Inl (authenticate_catch
                    (new_Error ''No token received from authentication endpoint'')), s)
               else
                 let bearerToken =
                       (if startsWith token ''Bearer '' then token else ''Bearer '' @ token)
                 in (Inr bearerToken,
                     s\<lparr>tokenCache := cache_set (tokenCache s) ''token'' bearerToken
                                      (authTokenTTL cfg) t_set,
                       tokenExpiresAt := t_exp + authTokenTTL cfg\<rparr>)))"

text \<open>
  The promise stored in \<open>authPromise\<close> is \<^verbatim>\<open>authenticate().finally(...)\<close>: when the
  login request is answered, \<^verbatim>\<open>authenticate()\<close> completes and the \<^verbatim>\<open>finally\<close> callback
  sets \<open>authPromise\<close> to \<^verbatim>\<open>null\<close>; every caller awaiting the promise gets the result.
\<close>

definition settle ::
  "auth_config \<Rightarrow> auth_state \<Rightarrow> login_outcome \<Rightarrow> int \<Rightarrow> int \<Rightarrow> (js_error + string) \<times> auth_state"
where
  "settle cfg s outcome t_set t_exp =
     (case authenticate_complete cfg s outcome t_set t_exp of
        (result, s') \<Rightarrow> (result, s'\<lparr>authPromise := None\<rparr>))"

text \<open>
  \<^verbatim>\<open>getToken()\<close> up to its \<^verbatim>\<open>await\<close>, which runs without interruption: it either returns
  the cached token or awaits a promise. \<open>t_get\<close> is the clock read inside
  \<^verbatim>\<open>tokenCache.get\<close>, \<open>t_cmp\<close> the one read by the comparison with \<open>tokenExpiresAt\<close>.
  Calling \<^verbatim>\<open>authenticate()\<close> posts the login request before \<open>authPromise\<close> is assigned.
\<close>

datatype token_wait = Cached string | Awaits nat

definition acquire :: "auth_state \<Rightarrow> token_wait \<times> auth_state" where
  "acquire s =
     (case authPromise s of
        Some p \<Rightarrow> (Awaits p, s)
      | None \<Rightarrow>
          let p = loginCalls s
          in (Awaits p, s\<lparr>authPromise := Some p, loginCalls := Suc p\<rparr>))"

definition getToken_sync ::
  "auth_config \<Rightarrow> auth_state \<Rightarrow> int \<Rightarrow> int \<Rightarrow> token_wait \<times> auth_state"
where
  "getToken_sync cfg s t_get t_cmp =
     (case cache_get (tokenCache s) ''token'' t_get of
        (cachedToken, c) \<Rightarrow>
          let s1 = s\<lparr>tokenCache := c\<rparr>
          in (case cachedToken of
                None \<Rightarrow> acquire s1
              | Some tok \<Rightarrow>
                  (if tok \<noteq> [] \<and> tokenExpiresAt s1 > t_cmp + tokenRefreshThreshold cfg * 1000
                   then (Cached tok, s1)
                   else acquire s1)))"

text \<open>
  \<^verbatim>\<open>getToken()\<close> run to its end with no other code in between: the promise it awaits is
  settled by the answer \<open>outcome\<close> of the login request.
\<close>

definition getToken ::
  "auth_config \<Rightarrow> auth_state \<Rightarrow> int \<Rightarrow> int \<Rightarrow> login_outcome \<Rightarrow> int \<Rightarrow> int
     \<Rightarrow> (js_error + string) \<times> auth_state"
where
  "getToken cfg s t_get t_cmp outcome t_set t_exp =
     (case getToken_sync cfg s t_get t_cmp of
        (Cached tok, s1) \<Rightarrow> (Inr tok, s1)
      | (Awaits p, s1) \<Rightarrow> settle cfg s1 outcome t_set t_exp)"

definition clearToken :: "auth_state \<Rightarrow> auth_state" where
  "clearToken s =
     s\<lparr>tokenCache := snd (cache_delete (tokenCache s) ''token''),
       tokenExpiresAt := 0,
       authPromise := None\<rparr>"



text \<open>The test of \<^verbatim>\<open>getToken()\<close> for "a valid cached token".\<close>

definition token_fresh :: "auth_config \<Rightarrow> auth_state \<Rightarrow> int \<Rightarrow> int \<Rightarrow> bool" where
  "token_fresh cfg s t_get t_cmp =
     (truthy (fst (cache_get (tokenCache s) ''token'' t_get))
      \<and> tokenExpiresAt s > t_cmp + tokenRefreshThreshold cfg * 1000)"

text \<open>Every token the cache holds was stored by \<^verbatim>\<open>authenticate()\<close>, with its prefix.\<close>

definition token_inv :: "auth_state \<Rightarrow> bool" where
  "token_inv s =
     (case map_of (tokenCache s) ''token'' of
        None \<Rightarrow> True
      | Some e \<Rightarrow> startsWith (entryValue e) ''Bearer '')"




text \<open>The defaults of config.ts: a threshold of 300 seconds and a TTL of 3300000 ms.\<close>

definition default_auth_config :: auth_config where
  "default_auth_config = \<lparr>tokenRefreshThreshold = 300, authTokenTTL = 3300000\<rparr>"

section \<open>server-http.ts: the session registry\<close>

text \<open>
  A \<^verbatim>\<open>TransportInfo\<close>: the transport and the server are objects, named here by numbers.
\<close>

record TransportInfo =
  transport :: nat
  server :: nat
  lastActivity :: int

text \<open>
  The state of an \<^verbatim>\<open>EfecteHttpServer\<close>: the map \<open>transports\<close>, and a log, which the code
  does not hold, of the calls of \<^verbatim>\<open>transports.delete(sid)\<close> that removed an entry and of
  \<^verbatim>\<open>server.close()\<close> on the server of a session, in the order they were made.
\<close>

datatype server_event = MapDelete string | ServerClose string nat

record http_state =
  transports :: "(string, TransportInfo) jsmap"
  events :: "server_event list"

text \<open>\<^verbatim>\<open>efecteConfig.transport.http.sessionTimeout || 1800000\<close>.\<close>

definition sessionTimeout :: "int option \<Rightarrow> int" where
  "sessionTimeout configured =
     (case configured of
        None \<Rightarrow> 1800000
      | Some n \<Rightarrow> if n = 0 then 1800000 else n)"

text \<open>The first loop of \<^verbatim>\<open>cleanupIdleSessions()\<close>: the identifiers of the idle sessions.\<close>

definition sessionsToClose :: "(string, TransportInfo) jsmap \<Rightarrow> int \<Rightarrow> int \<Rightarrow> string list" where
  "sessionsToClose m now tmo =
     map fst (filter (\<lambda>(sessionId, transportInfo). now - lastActivity transportInfo > tmo) m)"

text \<open>
  The body of its second loop: the entry is deleted from the map, then \<^verbatim>\<open>server.close()\<close>
  is called and not awaited.
\<close>

definition close_idle :: "string \<Rightarrow> http_state \<Rightarrow> http_state" where
  "close_idle sessionId st =
     (case map_of (transports st) sessionId of
        None \<Rightarrow> st
      | Some transportInfo \<Rightarrow>
          st\<lparr>transports := AList.delete sessionId (transports st),
             events := events st @ [MapDelete sessionId,
                                     ServerClose sessionId (server transportInfo)]\<rparr>)"

definition cleanupIdleSessions :: "int option \<Rightarrow> int \<Rightarrow> http_state \<Rightarrow> http_state" where
  "cleanupIdleSessions configured now st =
     fold close_idle (sessionsToClose (transports st) now (sessionTimeout configured)) st"

text \<open>
  What else changes the map: the \<^verbatim>\<open>onsessioninitialized\<close> callback stores a new session,
  a request routed to a known session refreshes \<open>lastActivity\<close>, the \<^verbatim>\<open>onclose\<close>
  callback of a transport and the clean-up of a failed initialization delete a session
  that is still there, and the periodic sweep runs.
\<close>

datatype registry_op =
    SessionInitialized string nat nat int
  | Touch string int
  | SessionRemoved string
  | IdleSweep "int option" int

fun registry_step :: "http_state \<Rightarrow> registry_op \<Rightarrow> http_state" where
  "registry_step st (SessionInitialized sid tr srv now) =
     st\<lparr>transports :=
          AList.update sid \<lparr>transport = tr, server = srv, lastActivity = now\<rparr> (transports st)\<rparr>"
| "registry_step st (Touch sid now) =
     (case map_of (transports st) sid of
        None \<Rightarrow> st
      | Some transportInfo \<Rightarrow>
          st\<lparr>transports :=
               AList.update sid (transportInfo\<lparr>lastActivity := now\<rparr>) (transports st)\<rparr>)"
| "registry_step st (SessionRemoved sid) =
     (if map_has (transports st) sid
      then st\<lparr>transports := AList.delete sid (transports st),
              events := events st @ [MapDelete sid]\<rparr>
      else st)"
| "registry_step st (IdleSweep configured now) = cleanupIdleSessions configured now st"

fun initializes :: "string \<Rightarrow> registry_op \<Rightarrow> bool" where
  "initializes sid (SessionInitialized sid' tr srv now) = (sid' = sid)"
| "initializes sid (Touch sid' now) = False"
| "initializes sid (SessionRemoved sid') = False"
| "initializes sid (IdleSweep configured now) = False"

text \<open>
  The handler of \<^verbatim>\<open>DELETE /mcp\<close>: the HTTP status it answers with and the state afterwards.
  \<open>sessionId\<close> is the header \<^verbatim>\<open>mcp-session-id\<close>. While the handler awaits
  \<^verbatim>\<open>server.close()\<close> other code runs: \<open>during\<close> is what it does to the map. An error
  thrown by \<^verbatim>\<open>close()\<close> is caught and logged.
\<close>

definition delete_mcp ::
  "string option \<Rightarrow> registry_op list \<Rightarrow> http_state \<Rightarrow> nat \<times> http_state"
where
  "delete_mcp sessionId during st =
     (case sessionId of
        None \<Rightarrow> (400, st)
      | Some sid \<Rightarrow>
          if sid = [] then (400, st)
          else if map_has (transports st) sid then
            (case map_of (transports st) sid of
               None \<Rightarrow> (204, st)
             | Some transportInfo \<Rightarrow>
                 let st1 = st\<lparr>events := events st @ [ServerClose sid (server transportInfo)]\<rparr>;
                     st2 = foldl registry_step st1 during;
                     st3 = st2\<lparr>transports := AList.delete sid (transports st2),
                              events := events st2 @ [MapDelete sid]\<rparr>
                 in (204, st3))
          else (404, st))"

text \<open>In a log, the entry of \<open>sid\<close> is deleted from the map before \<open>close()\<close> is called on its server.\<close>

definition removed_before_close :: "string \<Rightarrow> nat \<Rightarrow> server_event list \<Rightarrow> bool" where
  "removed_before_close sid srv evs =
     (ServerClose sid srv \<in> set evs
      \<and> MapDelete sid \<in> set (takeWhile (\<lambda>e. e \<noteq> ServerClose sid srv) evs))"

fun event_session :: "server_event \<Rightarrow> string" where
  "event_session (MapDelete sid) = sid"
| "event_session (ServerClose sid srv) = sid"

section \<open>utils/reference-helper.ts: the closest reference value\<close>



text \<open>
  The Levenshtein distance of the specification, the minimum number of insertions, deletions
  and substitutions of single characters that turn one string into the other, by its usual
  recurrence on the first characters.
\<close>

fun levenshtein :: "'c list \<Rightarrow> 'c list \<Rightarrow> nat" where
  "levenshtein [] ys = length ys"
| "levenshtein xs [] = length xs"
| "levenshtein (x # xs) (y # ys) =
     (if x = y then levenshtein xs ys
      else Suc (min (levenshtein xs ys) (min (levenshtein xs (y # ys)) (levenshtein (x # xs) ys))))"







section \<open>api/client.ts: the API client and its interceptors\<close>

text \<open>
  What the client meets when it runs: the configuration, the successive values of
  \<^verbatim>\<open>Date.now()\<close>, the answer to the \<open>p\<close>-th login request, the answer to the \<open>n\<close>-th
  request dispatched to the API (a response or the error axios rejects with), and the
  rendering of a number in a template literal.
\<close>

record 'r world =
  authConfig :: auth_config
  configTimeout :: int
  clock :: "nat \<Rightarrow> int"
  login_answer :: "nat \<Rightarrow> login_outcome"
  api_answer :: "nat \<Rightarrow> js_error + 'r"
  numberToString :: "int \<Rightarrow> string"

text \<open>
  The state of an \<^verbatim>\<open>EfecteApiClient\<close>: its \<^verbatim>\<open>AuthManager\<close>, and, which the code does not
  hold, the requests dispatched to the API so far and the number of clock values read.
\<close>

record client_state =
  auth :: auth_state
  dispatched :: "request_config list"
  clock_reads :: nat

text \<open>
  \<^verbatim>\<open>await this.authManager.getToken()\<close> with no other code running in between: the promise
  awaited is settled by the answer to its login request.
\<close>

definition client_getToken :: "'r world \<Rightarrow> client_state \<Rightarrow> (js_error + string) \<times> client_state" where
  "client_getToken w cs =
     (let n = clock_reads cs
      in case getToken_sync (authConfig w) (auth cs) (clock w n) (clock w (n + 1)) of
           (Cached tok, a1) \<Rightarrow> (Inr tok, cs\<lparr>auth := a1, clock_reads := n + 2\<rparr>)
         | (Awaits p, a1) \<Rightarrow>
             (case settle (authConfig w) a1 (login_answer w p) (clock w (n + 2)) (clock w (n + 3)) of
                (result, a2) \<Rightarrow> (result, cs\<lparr>auth := a2, clock_reads := n + 4\<rparr>)))"

text \<open>\<^verbatim>\<open>config.url && !config.url.includes('/users/login') && !config.url.includes('/echo')\<close>.\<close>

definition needs_token :: "request_config \<Rightarrow> bool" where
  "needs_token config =
     (case url config of
        None \<Rightarrow> False
      | Some u \<Rightarrow> u \<noteq> [] \<and> \<not> str_includes u ''/users/login'' \<and> \<not> str_includes u ''/echo'')"

text \<open>\<^verbatim>\<open>if (!config.timeout) config.timeout = efecteConfig.timeout\<close>.\<close>

definition ensure_timeout :: "'r world \<Rightarrow> request_config \<Rightarrow> request_config" where
  "ensure_timeout w config =
     (case timeout config of
        None \<Rightarrow> config\<lparr>timeout := Some (configTimeout w)\<rparr>
      | Some t \<Rightarrow> if t = 0 then config\<lparr>timeout := Some (configTimeout w)\<rparr> else config)"

text \<open>The request interceptor: the configuration to dispatch, or the error it rejects with.\<close>

definition request_fulfilled ::
  "'r world \<Rightarrow> client_state \<Rightarrow> request_config \<Rightarrow> (js_error + request_config) \<times> client_state"
where
  "request_fulfilled w cs config =
     (if needs_token config then
        (case client_getToken w cs of
           (Inl error, cs1) \<Rightarrow> (Inl error, cs1)
         | (Inr token, cs1) \<Rightarrow>
             (Inr (ensure_timeout w (config\<lparr>Authorization := Some token\<rparr>)), cs1))
      else (Inr (ensure_timeout w config), cs))"

text \<open>\<^verbatim>\<open>!error.config?.url?.includes('/users/login')\<close>.\<close>

definition not_login_url :: "request_config option \<Rightarrow> bool" where
  "not_login_url error_config =
     (case error_config of
        None \<Rightarrow> True
      | Some config \<Rightarrow>
          (case url config of
             None \<Rightarrow> True
           | Some u \<Rightarrow> \<not> str_includes u ''/users/login''))"

text \<open>\<^verbatim>\<open>error.config?.url || 'unknown'\<close> and \<^verbatim>\<open>error.config?.timeout || efecteConfig.timeout\<close>.\<close>

definition requestUrl :: "request_config option \<Rightarrow> string" where
  "requestUrl error_config =
     (case error_config of
        None \<Rightarrow> ''unknown''
      | Some config \<Rightarrow>
          (case url config of
             None \<Rightarrow> ''unknown''
           | Some u \<Rightarrow> if u = [] then ''unknown'' else u))"

definition error_timeout :: "'r world \<Rightarrow> request_config option \<Rightarrow> int" where
  "error_timeout w error_config =
     (case error_config of
        None \<Rightarrow> configTimeout w
      | Some config \<Rightarrow>
          (case timeout config of
             None \<Rightarrow> configTimeout w
           | Some t \<Rightarrow> if t = 0 then configTimeout w else t))"

text \<open>
  The error handler of the response interceptor, called with the error and its
  \<^verbatim>\<open>error.config\<close>. \<open>Inl\<close> is the error it rejects with; \<open>Inr config\<close> stands for
  \<^verbatim>\<open>return this.client.request(config)\<close>.
\<close>

definition response_rejected ::
  "'r world \<Rightarrow> client_state \<Rightarrow> js_error \<Rightarrow> request_config option
     \<Rightarrow> (js_error + request_config) \<times> client_state"
where
  "response_rejected w cs error error_config =
     (if code error = Some ''ECONNABORTED'' \<or> str_includes (message error) ''timeout'' then
        (Inl ((new_Error (''Request to '' @ requestUrl error_config @ '' timed out after ''
                  @ numberToString w (error_timeout w error_config)
                  @ ''ms. The server may be slow or unreachable.''))
                \<lparr>code := Some ''ETIMEDOUT'', isTimeout := True\<rparr>), cs)
      else if code error = Some ''ENOTFOUND'' \<or> code error = Some ''ECONNREFUSED''
              \<or> code error = Some ''ECONNRESET'' then
        (Inl ((new_Error (''Network error connecting to '' @ requestUrl error_config @ '': ''
                  @ message error
                  @ ''. Please check your connection and server availability.''))
                \<lparr>code := code error, isNetworkError := True\<rparr>), cs)
      else
        (case response_status error of
           None \<Rightarrow> (Inl error, cs)
         | Some status \<Rightarrow>
             if status = 401 \<and> not_login_url error_config then
               (let cs1 = cs\<lparr>auth := clearToken (auth cs)\<rparr>
                in case error_config of
                     None \<Rightarrow> (Inl error, cs1)
                   | Some config \<Rightarrow>
                       if \<not> truthy (X_Retry config) then
                         (let config1 = config\<lparr>X_Retry := Some ''true''\<rparr>
                          in case client_getToken w cs1 of
                               (Inl e, cs2) \<Rightarrow> (Inl e, cs2)
                             | (Inr token, cs2) \<Rightarrow>
                                 (Inr (config1\<lparr>Authorization := Some token\<rparr>), cs2))
                       else (Inl error, cs1))
             else (Inl error, cs)))"

text \<open>
  One pass of \<^verbatim>\<open>this.client.request(config)\<close> through the chain of axios: the request
  interceptor, the dispatch, and on a rejection the error handler of the response
  interceptor. A rejection of the request interceptor skips the dispatch and reaches the
  same handler, with an error that has no \<^verbatim>\<open>config\<close>. \<open>Inl\<close> is the outcome of the call,
  \<open>Inr config\<close> the call of \<^verbatim>\<open>this.client.request(config)\<close> the handler ends with.
\<close>

definition request_pass ::
  "'r world \<Rightarrow> client_state \<Rightarrow> request_config
     \<Rightarrow> ((js_error + 'r) + request_config) \<times> client_state"
where
  "request_pass w cs config =
     (case request_fulfilled w cs config of
        (Inl error, cs1) \<Rightarrow>
          (case response_rejected w cs1 error None of
             (Inl e, cs2) \<Rightarrow> (Inl (Inl e), cs2)
           | (Inr config', cs2) \<Rightarrow> (Inr config', cs2))
      | (Inr config1, cs1) \<Rightarrow>
          (let cs2 = cs1\<lparr>dispatched := dispatched cs1 @ [config1]\<rparr>
           in case api_answer w (length (dispatched cs1)) of
                Inr response \<Rightarrow> (Inl (Inr response), cs2)
              | Inl error \<Rightarrow>
                  (case response_rejected w cs2 error (Some config1) of
                     (Inl e, cs3) \<Rightarrow> (Inl (Inl e), cs3)
                   | (Inr config', cs3) \<Rightarrow> (Inr config', cs3))))"

lemma response_rejected_retry:
  assumes "response_rejected w cs error error_config = (Inr config', cs')"
  shows "\<exists>config. error_config = Some config \<and> \<not> truthy (X_Retry config)
           \<and> X_Retry config' = Some ''true''"
  using assms
  by (auto simp add: response_rejected_def Let_def
      split: if_splits option.splits prod.splits sum.splits)

lemma ensure_timeout_X_Retry [simp]: "X_Retry (ensure_timeout w config) = X_Retry config"
  by (simp add: ensure_timeout_def split: option.splits)

lemma request_fulfilled_X_Retry:
  assumes "request_fulfilled w cs config = (Inr config1, cs1)"
  shows "X_Retry config1 = X_Retry config"
  using assms
  by (auto simp add: request_fulfilled_def split: if_splits prod.splits sum.splits)

lemma request_pass_retry:
  assumes "request_pass w cs config = (Inr config', cs')"
  shows "\<not> truthy (X_Retry config) \<and> truthy (X_Retry config')"
proof -
  from assms show ?thesis
    by (auto simp add: request_pass_def Let_def
        split: prod.splits sum.splits
        dest!: response_rejected_retry request_fulfilled_X_Retry)
qed

function request ::
  "'r world \<Rightarrow> client_state \<Rightarrow> request_config \<Rightarrow> (js_error + 'r) \<times> client_state"
where
  "request w cs config =
     (case request_pass w cs config of
        (Inl outcome, cs') \<Rightarrow> (outcome, cs')
      | (Inr config', cs') \<Rightarrow> request w cs' config')"
  by pat_completeness auto
termination
proof (relation "measure (\<lambda>(w, cs, config). if truthy (X_Retry config) then 0 else 1)")
  show "wf (measure (\<lambda>(w :: 'r world, cs :: client_state, config).
      if truthy (X_Retry config) then 0 else (1::nat)))"
    by simp
next
  fix w :: "'r world" and cs config x1 cs' config'
  assume "(x1, cs') = request_pass w cs config" and "x1 = Inr config'"
  then have "request_pass w cs config = (Inr config', cs')" by simp
  from request_pass_retry [OF this]
  show "((w, cs', config'), (w, cs, config))
      \<in> measure (\<lambda>(w, cs, config). if truthy (X_Retry config) then 0 else 1)"
    by simp
qed


text \<open>The token \<^verbatim>\<open>authenticate()\<close> returns for an answer to the login request, if any.\<close>

definition received_token :: "login_outcome \<Rightarrow> string option" where
  "received_token outcome =
     (case outcome of
        LoginRejected error \<Rightarrow> None
      | LoginResolved data_token header_authorization \<Rightarrow>
          (case js_or data_token header_authorization of
             None \<Rightarrow> None
           | Some token \<Rightarrow>
               if token = [] then None
               else Some (if startsWith token ''Bearer '' then token else ''Bearer '' @ token)))"

text \<open>The first two tests of the error handler: the error is reported as a timeout or a network error.\<close>

definition reclassified :: "js_error \<Rightarrow> bool" where
  "reclassified error =
     (code error = Some ''ECONNABORTED'' \<or> str_includes (message error) ''timeout''
      \<or> code error = Some ''ENOTFOUND'' \<or> code error = Some ''ECONNREFUSED''
      \<or> code error = Some ''ECONNRESET'')"

text \<open>
  The rejection of a request the API answered with status 401. (axios builds it with the
  code \<^verbatim>\<open>ERR_BAD_REQUEST\<close> and the message \<^verbatim>\<open>Request failed with status code 401\<close>.)
\<close>

definition unauthorized :: "js_error \<Rightarrow> bool" where
  "unauthorized error = (response_status error = Some 401 \<and> \<not> reclassified error)"

text \<open>A new \<^verbatim>\<open>EfecteApiClient\<close>.\<close>

definition new_EfecteApiClient :: client_state where
  "new_EfecteApiClient = \<lparr>auth = new_AuthManager, dispatched = [], clock_reads = 0\<rparr>"

text \<open>The error axios rejects with when the API answers with status 401.\<close>

definition unauthorized_error :: js_error where
  "unauthorized_error =
     \<lparr>message = ''Request failed with status code 401'', code = Some ''ERR_BAD_REQUEST'',
      isAxiosError = True, response_status = Some 401, isTimeout = False,
      isNetworkError = False\<rparr>"

text \<open>
  A world in which every login request is answered with the token \<^verbatim>\<open>abc\<close> and the API
  rejects every request with status 401, and a request of a protected path.
\<close>

definition rejecting_world :: "nat world" where
  "rejecting_world =
     \<lparr>authConfig = default_auth_config, configTimeout = 30000, clock = (\<lambda>n. int n),
      login_answer = (\<lambda>p. LoginResolved (Some ''abc'') None),
      api_answer = (\<lambda>n. Inl unauthorized_error),
      numberToString = (\<lambda>i. ''30000'')\<rparr>"

definition data_request :: request_config where
  "data_request = \<lparr>url = Some ''/dc/incident/data'', timeout = None, Authorization = None,
                    X_Retry = None\<rparr>"

text \<open>An \<^verbatim>\<open>AuthManager\<close> that holds the token \<^verbatim>\<open>Bearer abc\<close>, stored at time 1005.\<close>

definition authenticated_AuthManager :: auth_state where
  "authenticated_AuthManager =
     \<lparr>tokenCache = [(''token'', \<lparr>entryValue = ''Bearer abc'', expiresAt = 3301005\<rparr>)],
      tokenExpiresAt = 3301006, authPromise = None, loginCalls = 1\<rparr>"


text \<open>Two sessions, last active at time 0 and at time 90000.\<close>

definition two_sessions :: http_state where
  "two_sessions =
     \<lparr>transports = [(''a'', \<lparr>transport = 0, server = 0, lastActivity = 0\<rparr>),
                     (''b'', \<lparr>transport = 1, server = 1, lastActivity = 90000\<rparr>)],
      events = []\<rparr>"

section \<open>Properties of the cache\<close>









lemma cache_get_lookup:
  "map_of (snd (cache_get c key now)) k =
     (if k = key \<and> (\<exists>e. map_of c key = Some e \<and> now > expiresAt e) then None else map_of c k)"
  by (auto simp add: cache_get_def delete_conv' split: option.splits)






text \<open>
  C10. An entry of key \<open>k\<close> whose \<open>expiresAt\<close> is before \<open>now\<close> and which is still in the map:
  \<^verbatim>\<open>delete(k)\<close> returns true and \<^verbatim>\<open>size()\<close> counts the entry (it is one more than the size
  after the read has removed the entry), while \<^verbatim>\<open>get(k)\<close> at \<open>now\<close> returns a miss.
\<close>

theorem C10_expired_entry_still_counted:
  assumes "wf_map c" and "map_of c k = Some e" and "now > expiresAt e"
  shows "fst (cache_delete c k) = True
         \<and> cache_size c = Suc (cache_size (snd (cache_get c k now)))
         \<and> fst (cache_get c k now) = None"
proof -
  have "k \<in> set (map fst c)" using assms(2) by (metis map_of_eq_None_iff option.distinct(1) set_map)
  moreover have "distinct (map fst c)" using assms(1) by (simp add: wf_map_def)
  ultimately have "length (removeAll k (map fst c)) = length (map fst c) - 1"
    by (simp add: distinct_remove1_removeAll [symmetric] length_remove1)
  moreover have "length c > 0" using assms(2) by (cases c) simp_all
  ultimately have "length c = Suc (length (AList.delete k c))"
    using delete_keys [of k c] by (metis One_nat_def Suc_pred length_map)
  then show ?thesis using assms
    by (simp add: cache_delete_def cache_get_def cache_size_def map_has_def)
qed

theorem C10_expired_entry_still_counted_witness:
  "wf_map [(''k'', \<lparr>entryValue = (1::nat), expiresAt = 5\<rparr>)]
   \<and> map_of [(''k'', \<lparr>entryValue = (1::nat), expiresAt = 5\<rparr>)] ''k''
       = Some \<lparr>entryValue = 1, expiresAt = 5\<rparr>
   \<and> (6::int) > expiresAt \<lparr>entryValue = (1::nat), expiresAt = 5\<rparr>
   \<and> fst (cache_delete [(''k'', \<lparr>entryValue = (1::nat), expiresAt = 5\<rparr>)] ''k'') = True
   \<and> cache_size [(''k'', \<lparr>entryValue = (1::nat), expiresAt = 5\<rparr>)] = Suc 0
   \<and> fst (cache_get [(''k'', \<lparr>entryValue = (1::nat), expiresAt = 5\<rparr>)] ''k'' 6) = None"
proof -
  let ?e = "\<lparr>entryValue = (1::nat), expiresAt = 5\<rparr>"
  have wf: "wf_map [(''k'', ?e)]" by (simp add: wf_map_def)
  have look: "map_of [(''k'', ?e)] ''k'' = Some ?e" by simp
  have late: "(6::int) > expiresAt ?e" by simp
  show ?thesis
    using wf look late C10_expired_entry_still_counted [OF wf look late]
    by (simp add: cache_size_def)
qed

section \<open>Properties of the credential manager\<close>


lemma acquire_result:
  "acquire s =
     (Awaits (case authPromise s of None \<Rightarrow> loginCalls s | Some q \<Rightarrow> q),
      s\<lparr>authPromise := Some (case authPromise s of None \<Rightarrow> loginCalls s | Some q \<Rightarrow> q),
        loginCalls := (case authPromise s of None \<Rightarrow> Suc (loginCalls s) | Some q \<Rightarrow> loginCalls s)\<rparr>)"
  by (simp add: acquire_def Let_def split: option.splits)

lemma getToken_sync_fresh:
  assumes "token_fresh cfg s t1 t2"
  shows "\<exists>tok. fst (cache_get (tokenCache s) ''token'' t1) = Some tok \<and> tok \<noteq> [] \<and>
     getToken_sync cfg s t1 t2 =
       (Cached tok, s\<lparr>tokenCache := snd (cache_get (tokenCache s) ''token'' t1)\<rparr>)"
proof -
  obtain r c where rc: "cache_get (tokenCache s) ''token'' t1 = (r, c)" by fastforce
  with assms obtain tok where tok: "r = Some tok" "tok \<noteq> []"
    by (cases r) (simp_all add: token_fresh_def)
  with assms rc show ?thesis
    by (simp add: getToken_sync_def token_fresh_def Let_def)
qed

lemma getToken_sync_not_fresh:
  assumes "\<not> token_fresh cfg s t1 t2"
  shows "getToken_sync cfg s t1 t2 =
     acquire (s\<lparr>tokenCache := snd (cache_get (tokenCache s) ''token'' t1)\<rparr>)"
proof -
  obtain r c where rc: "cache_get (tokenCache s) ''token'' t1 = (r, c)" by fastforce
  with assms show ?thesis
    by (cases r) (auto simp add: getToken_sync_def token_fresh_def Let_def)
qed



lemma startsWith_nonempty: "startsWith s p \<Longrightarrow> p \<noteq> [] \<Longrightarrow> s \<noteq> []"
  by (auto simp add: startsWith_def)

lemma startsWith_append: "startsWith (p @ s) p"
  by (simp add: startsWith_def)

lemma token_inv_cached:
  assumes "token_inv s" and "fst (cache_get (tokenCache s) ''token'' t) = Some tok"
  shows "startsWith tok ''Bearer ''"
  using assms
  by (auto simp add: token_inv_def cache_get_def split: option.splits if_splits)

lemma token_fresh_iff:
  assumes "token_inv s"
  shows "token_fresh cfg s t_get t_cmp \<longleftrightarrow>
     (fst (cache_get (tokenCache s) ''token'' t_get) \<noteq> None
      \<and> tokenExpiresAt s > t_cmp + tokenRefreshThreshold cfg * 1000)"
proof (cases "fst (cache_get (tokenCache s) ''token'' t_get)")
  case None
  then show ?thesis by (simp add: token_fresh_def)
next
  case (Some tok)
  then have "tok \<noteq> []"
    using token_inv_cached [OF assms] startsWith_nonempty by fastforce
  with Some show ?thesis by (simp add: token_fresh_def)
qed

lemma getToken_sync_Cached_iff:
  "(\<exists>tok. fst (getToken_sync cfg s t1 t2) = Cached tok) \<longleftrightarrow> token_fresh cfg s t1 t2"
proof
  assume ex: "\<exists>tok. fst (getToken_sync cfg s t1 t2) = Cached tok"
  show "token_fresh cfg s t1 t2"
  proof (rule ccontr)
    assume "\<not> token_fresh cfg s t1 t2"
    then have "\<exists>p. fst (getToken_sync cfg s t1 t2) = Awaits p"
      by (simp add: getToken_sync_not_fresh acquire_result)
    with ex show False by auto
  qed
next
  assume "token_fresh cfg s t1 t2"
  then show "\<exists>tok. fst (getToken_sync cfg s t1 t2) = Cached tok"
    using getToken_sync_fresh [of cfg s t1 t2] by auto
qed

lemma settle_resolved:
  assumes "js_or d h = Some token" and "token \<noteq> []"
  shows "settle cfg s (LoginResolved d h) t_set t_exp =
     (Inr (if startsWith token ''Bearer '' then token else ''Bearer '' @ token),
      s\<lparr>tokenCache := cache_set (tokenCache s) ''token''
           (if startsWith token ''Bearer '' then token else ''Bearer '' @ token)
           (authTokenTTL cfg) t_set,
        tokenExpiresAt := t_exp + authTokenTTL cfg,
        authPromise := None\<rparr>)"
  using assms by (simp add: settle_def authenticate_complete_def Let_def)

lemma cache_get_Some_iff:
  "fst (cache_get c k now) = Some v \<longleftrightarrow>
     (\<exists>e. map_of c k = Some e \<and> now \<le> expiresAt e \<and> entryValue e = v)"
  by (auto simp add: cache_get_def split: option.splits)

lemma token_fresh_state:
  assumes "token_inv s"
  shows "token_fresh cfg s t_get t_cmp \<longleftrightarrow>
     (\<exists>e. map_of (tokenCache s) ''token'' = Some e \<and> t_get \<le> expiresAt e
          \<and> tokenExpiresAt s > t_cmp + tokenRefreshThreshold cfg * 1000)"
proof -
  have "fst (cache_get (tokenCache s) ''token'' t_get) \<noteq> None \<longleftrightarrow>
      (\<exists>e. map_of (tokenCache s) ''token'' = Some e \<and> t_get \<le> expiresAt e)"
    using cache_get_Some_iff [of "tokenCache s" "''token''" t_get] by auto
  then show ?thesis using token_fresh_iff [OF assms, of cfg t_get t_cmp] by auto
qed

lemma token_fresh_entry:
  "token_fresh cfg s t_get t_cmp \<longleftrightarrow>
     (\<exists>e. map_of (tokenCache s) ''token'' = Some e \<and> t_get \<le> expiresAt e
          \<and> entryValue e \<noteq> []
          \<and> tokenExpiresAt s > t_cmp + tokenRefreshThreshold cfg * 1000)"
proof (cases "fst (cache_get (tokenCache s) ''token'' t_get)")
  case None
  then have "\<not> (\<exists>e. map_of (tokenCache s) ''token'' = Some e \<and> t_get \<le> expiresAt e)"
    using cache_get_Some_iff [of "tokenCache s" "''token''" t_get] by auto
  with None show ?thesis by (auto simp add: token_fresh_def)
next
  case (Some v)
  then obtain e where "map_of (tokenCache s) ''token'' = Some e" "t_get \<le> expiresAt e"
    "entryValue e = v"
    using cache_get_Some_iff [of "tokenCache s" "''token''" t_get v] by auto
  with Some show ?thesis by (auto simp add: token_fresh_def)
qed

lemma js_or_token:
  assumes "token \<noteq> []"
    and "d = Some token \<or> ((d = None \<or> d = Some []) \<and> h = Some token)"
  shows "js_or d h = Some token"
  using assms by (auto simp add: js_or_def)

text \<open>
  C5. \<^verbatim>\<open>getToken()\<close> returns at once exactly when the cache holds under the key \<^verbatim>\<open>token\<close> an
  entry that has not expired (\<open>now \<le> expiresAt\<close>), whose value is not the empty string, and
  \<open>tokenExpiresAt\<close> exceeds now plus the refresh threshold (seconds, times 1000); it then
  returns the value of that entry, posts no login request and leaves the state as it is.
  Otherwise, with no acquisition in flight and a login response that carries a token (the
  token of the body, or that of the header when the body has none or an empty one), it
  returns the token with the prefix \<^verbatim>\<open>Bearer \<close> (added unless the token has it), stores it
  under the key \<^verbatim>\<open>token\<close> with \<open>expiresAt\<close> = time of set + \<open>authTokenTTL\<close>, sets
  \<open>tokenExpiresAt\<close> to now + \<open>authTokenTTL\<close>, has posted one login request and leaves no
  acquisition in flight.
\<close>

theorem C5_getToken:
  "((\<exists>tok. fst (getToken_sync cfg s t_get t_cmp) = Cached tok) \<longleftrightarrow>
            (\<exists>e. map_of (tokenCache s) ''token'' = Some e \<and> t_get \<le> expiresAt e
                 \<and> entryValue e \<noteq> []
                 \<and> tokenExpiresAt s > t_cmp + tokenRefreshThreshold cfg * 1000))
       \<and> (\<forall>e. map_of (tokenCache s) ''token'' = Some e \<and> t_get \<le> expiresAt e
                 \<and> entryValue e \<noteq> []
                 \<and> tokenExpiresAt s > t_cmp + tokenRefreshThreshold cfg * 1000 \<longrightarrow>
            getToken cfg s t_get t_cmp outcome t_set t_exp = (Inr (entryValue e), s))
       \<and> (\<not> (\<exists>e. map_of (tokenCache s) ''token'' = Some e \<and> t_get \<le> expiresAt e
                 \<and> entryValue e \<noteq> []
                 \<and> tokenExpiresAt s > t_cmp + tokenRefreshThreshold cfg * 1000)
            \<and> authPromise s = None \<and> token \<noteq> []
            \<and> (d = Some token \<or> ((d = None \<or> d = Some []) \<and> h = Some token)) \<longrightarrow>
          (let bearerToken = (if take 7 token = ''Bearer '' then token else ''Bearer '' @ token);
               r = getToken cfg s t_get t_cmp (LoginResolved d h) t_set t_exp
           in fst r = Inr bearerToken
              \<and> take 7 bearerToken = ''Bearer ''
              \<and> map_of (tokenCache (snd r)) ''token'' =
                  Some \<lparr>entryValue = bearerToken, expiresAt = t_set + authTokenTTL cfg\<rparr>
              \<and> tokenExpiresAt (snd r) = t_exp + authTokenTTL cfg
              \<and> loginCalls (snd r) = Suc (loginCalls s)
              \<and> authPromise (snd r) = None))"
proof (intro conjI allI impI)
  show "(\<exists>tok. fst (getToken_sync cfg s t_get t_cmp) = Cached tok) \<longleftrightarrow>
            (\<exists>e. map_of (tokenCache s) ''token'' = Some e \<and> t_get \<le> expiresAt e
                 \<and> entryValue e \<noteq> []
                 \<and> tokenExpiresAt s > t_cmp + tokenRefreshThreshold cfg * 1000)"
    by (simp only: getToken_sync_Cached_iff token_fresh_entry)
next
  fix e
  assume c: "map_of (tokenCache s) ''token'' = Some e \<and> t_get \<le> expiresAt e
                 \<and> entryValue e \<noteq> []
                 \<and> tokenExpiresAt s > t_cmp + tokenRefreshThreshold cfg * 1000"
  then have fresh: "token_fresh cfg s t_get t_cmp"
    using token_fresh_entry by blast
  have get: "cache_get (tokenCache s) ''token'' t_get = (Some (entryValue e), tokenCache s)"
    using c by (simp add: cache_get_def)
  from getToken_sync_fresh [OF fresh] get
  have sync: "getToken_sync cfg s t_get t_cmp = (Cached (entryValue e), s)"
    by simp
  show "getToken cfg s t_get t_cmp outcome t_set t_exp = (Inr (entryValue e), s)"
    by (simp add: getToken_def sync)
next
  assume h: "\<not> (\<exists>e. map_of (tokenCache s) ''token'' = Some e \<and> t_get \<le> expiresAt e
                 \<and> entryValue e \<noteq> []
                 \<and> tokenExpiresAt s > t_cmp + tokenRefreshThreshold cfg * 1000)
            \<and> authPromise s = None \<and> token \<noteq> []
            \<and> (d = Some token \<or> ((d = None \<or> d = Some []) \<and> h = Some token))"
  then have nf: "\<not> token_fresh cfg s t_get t_cmp"
    using token_fresh_entry by blast
  have tok: "js_or d h = Some token" "token \<noteq> []"
    using h js_or_token [of token d h] by blast+
  let ?b = "if take 7 token = ''Bearer '' then token else ''Bearer '' @ token"
  let ?s0 = "s\<lparr>tokenCache := snd (cache_get (tokenCache s) ''token'' t_get)\<rparr>"
  let ?s1 = "?s0\<lparr>authPromise := Some (loginCalls s), loginCalls := Suc (loginCalls s)\<rparr>"
  have sync: "getToken_sync cfg s t_get t_cmp = (Awaits (loginCalls s), ?s1)"
    using h by (simp add: getToken_sync_not_fresh [OF nf] acquire_def Let_def)
  have run: "getToken cfg s t_get t_cmp (LoginResolved d h) t_set t_exp =
      settle cfg ?s1 (LoginResolved d h) t_set t_exp"
    by (simp add: getToken_def sync)
  have sw: "startsWith token ''Bearer '' \<longleftrightarrow> take 7 token = ''Bearer ''"
    by (simp add: startsWith_def eval_nat_numeral)
  have pre: "take 7 ?b = ''Bearer ''"
    by simp
  show "let bearerToken = ?b; r = getToken cfg s t_get t_cmp (LoginResolved d h) t_set t_exp
        in fst r = Inr bearerToken
              \<and> take 7 bearerToken = ''Bearer ''
              \<and> map_of (tokenCache (snd r)) ''token'' =
                  Some \<lparr>entryValue = bearerToken, expiresAt = t_set + authTokenTTL cfg\<rparr>
              \<and> tokenExpiresAt (snd r) = t_exp + authTokenTTL cfg
              \<and> loginCalls (snd r) = Suc (loginCalls s)
              \<and> authPromise (snd r) = None"
    unfolding Let_def run
    using tok pre
    by (simp add: settle_resolved [of d h token] sw cache_set_def update_conv')
qed

theorem C5_getToken_witness:
  "getToken default_auth_config authenticated_AuthManager 2000 2001
        (LoginResolved (Some ''xyz'') None) 2005 2006
       = (Inr ''Bearer abc'', authenticated_AuthManager)
   \<and> fst (getToken default_auth_config new_AuthManager 1000 1000
        (LoginResolved (Some ''abc'') None) 1005 1006) = Inr ''Bearer abc''
   \<and> snd (getToken default_auth_config new_AuthManager 1000 1000
        (LoginResolved (Some ''abc'') None) 1005 1006) = authenticated_AuthManager
   \<and> fst (getToken default_auth_config authenticated_AuthManager 3001007 3001007
        (LoginResolved (Some []) (Some ''Bearer xyz'')) 3001008 3001009) = Inr ''Bearer xyz''"
proof -
  let ?e = "\<lparr>entryValue = ''Bearer abc'', expiresAt = 3301005\<rparr>"
  have hit: "map_of (tokenCache authenticated_AuthManager) ''token'' = Some ?e
      \<and> 2000 \<le> expiresAt ?e \<and> entryValue ?e \<noteq> []
      \<and> tokenExpiresAt authenticated_AuthManager
          > 2001 + tokenRefreshThreshold default_auth_config * 1000"
    by (simp add: authenticated_AuthManager_def default_auth_config_def)
  have fast: "getToken default_auth_config authenticated_AuthManager 2000 2001
        (LoginResolved (Some ''xyz'') None) 2005 2006
       = (Inr (entryValue ?e), authenticated_AuthManager)"
    using C5_getToken [where s = authenticated_AuthManager and cfg = default_auth_config
        and t_get = 2000
        and t_cmp = 2001 and outcome = "LoginResolved (Some ''xyz'') None"
        and t_set = 2005 and t_exp = 2006] hit
    by blast
  have miss: "\<not> (\<exists>e. map_of (tokenCache new_AuthManager) ''token'' = Some e \<and> 1000 \<le> expiresAt e
        \<and> entryValue e \<noteq> []
        \<and> tokenExpiresAt new_AuthManager > 1000 + tokenRefreshThreshold default_auth_config * 1000)
      \<and> authPromise new_AuthManager = None \<and> ''abc'' \<noteq> []
      \<and> (Some ''abc'' = Some ''abc''
          \<or> ((Some ''abc'' = None \<or> Some ''abc'' = Some []) \<and> None = Some ''abc''))"
    by (simp add: new_AuthManager_def)
  have slow: "let bearerToken = (if take 7 ''abc'' = ''Bearer '' then ''abc'' else ''Bearer '' @ ''abc'');
            r = getToken default_auth_config new_AuthManager 1000 1000
                  (LoginResolved (Some ''abc'') None) 1005 1006
        in fst r = Inr bearerToken
              \<and> take 7 bearerToken = ''Bearer ''
              \<and> map_of (tokenCache (snd r)) ''token'' =
                  Some \<lparr>entryValue = bearerToken, expiresAt = 1005 + authTokenTTL default_auth_config\<rparr>
              \<and> tokenExpiresAt (snd r) = 1006 + authTokenTTL default_auth_config
              \<and> loginCalls (snd r) = Suc (loginCalls new_AuthManager)
              \<and> authPromise (snd r) = None"
    using C5_getToken [where s = new_AuthManager and cfg = default_auth_config and t_get = 1000
        and t_cmp = 1000 and d = "Some ''abc''" and h = None and token = "''abc''"
        and t_set = 1005 and t_exp = 1006] miss
    by blast
  have stale: "\<not> (\<exists>e. map_of (tokenCache authenticated_AuthManager) ''token'' = Some e
        \<and> 3001007 \<le> expiresAt e \<and> entryValue e \<noteq> []
        \<and> tokenExpiresAt authenticated_AuthManager
            > 3001007 + tokenRefreshThreshold default_auth_config * 1000)
      \<and> authPromise authenticated_AuthManager = None \<and> ''Bearer xyz'' \<noteq> []
      \<and> (Some [] = Some ''Bearer xyz''
          \<or> ((Some [] = None \<or> Some [] = Some []) \<and> Some ''Bearer xyz'' = Some ''Bearer xyz''))"
    by (simp add: authenticated_AuthManager_def default_auth_config_def)
  have refresh: "let bearerToken = (if take 7 ''Bearer xyz'' = ''Bearer '' then ''Bearer xyz'' else ''Bearer '' @ ''Bearer xyz'');
            r = getToken default_auth_config authenticated_AuthManager 3001007 3001007
                  (LoginResolved (Some []) (Some ''Bearer xyz'')) 3001008 3001009
        in fst r = Inr bearerToken
              \<and> take 7 bearerToken = ''Bearer ''
              \<and> map_of (tokenCache (snd r)) ''token'' =
                  Some \<lparr>entryValue = bearerToken, expiresAt = 3001008 + authTokenTTL default_auth_config\<rparr>
              \<and> tokenExpiresAt (snd r) = 3001009 + authTokenTTL default_auth_config
              \<and> loginCalls (snd r) = Suc (loginCalls authenticated_AuthManager)
              \<and> authPromise (snd r) = None"
    using C5_getToken [where s = authenticated_AuthManager and cfg = default_auth_config
        and t_get = 3001007
        and t_cmp = 3001007 and d = "Some []" and h = "Some ''Bearer xyz''"
        and token = "''Bearer xyz''"
        and t_set = 3001008 and t_exp = 3001009] stale
    by blast
  have whole: "snd (getToken default_auth_config new_AuthManager 1000 1000
        (LoginResolved (Some ''abc'') None) 1005 1006) = authenticated_AuthManager"
    by (simp add: getToken_def getToken_sync_def cache_get_def acquire_def settle_def
        authenticate_complete_def js_or_def new_AuthManager_def authenticated_AuthManager_def
        default_auth_config_def cache_set_def startsWith_def Let_def)
  show ?thesis using fast slow refresh whole
    by (simp add: Let_def)
qed

lemma token_inv_new: "token_inv new_AuthManager"
  by (simp add: token_inv_def new_AuthManager_def)

lemma token_inv_getToken_sync:
  assumes "token_inv s"
  shows "token_inv (snd (getToken_sync cfg s t_get t_cmp))"
proof -
  let ?s0 = "s\<lparr>tokenCache := snd (cache_get (tokenCache s) ''token'' t_get)\<rparr>"
  have inv0: "token_inv ?s0"
    using assms by (auto simp add: token_inv_def cache_get_lookup split: option.splits)
  show ?thesis
  proof (cases "token_fresh cfg s t_get t_cmp")
    case True
    from getToken_sync_fresh [OF this] inv0 show ?thesis by auto
  next
    case False
    from getToken_sync_not_fresh [OF this] inv0 show ?thesis
      by (simp add: acquire_result token_inv_def)
  qed
qed

lemma token_inv_settle:
  assumes "token_inv s"
  shows "token_inv (snd (settle cfg s outcome t_set t_exp))"
  using assms startsWith_append [of "''Bearer ''"]
  by (auto simp add: settle_def authenticate_complete_def token_inv_def cache_set_def
      update_conv' Let_def split: login_outcome.splits option.splits)

lemma token_inv_clearToken: "token_inv (clearToken s)"
  by (simp add: token_inv_def clearToken_def cache_delete_def delete_conv')

lemma getToken_sync_cleared:
  "getToken_sync cfg (clearToken s) t_get t_cmp =
     (Awaits (loginCalls s),
      (clearToken s)\<lparr>authPromise := Some (loginCalls s), loginCalls := Suc (loginCalls s)\<rparr>)"
proof -
  have "map_of (tokenCache (clearToken s)) ''token'' = None"
    by (simp add: clearToken_def cache_delete_def delete_conv')
  then have "cache_get (tokenCache (clearToken s)) ''token'' t_get = (None, tokenCache (clearToken s))"
    by (simp add: cache_get_def)
  then have "getToken_sync cfg (clearToken s) t_get t_cmp = acquire (clearToken s)"
    by (simp add: getToken_sync_def)
  moreover have "authPromise (clearToken s) = None" "loginCalls (clearToken s) = loginCalls s"
    by (simp_all add: clearToken_def)
  ultimately show ?thesis by (simp add: acquire_def Let_def)
qed

text \<open>
  \<^verbatim>\<open>clearToken()\<close> leaves no entry under the key \<^verbatim>\<open>token\<close>, sets \<open>tokenExpiresAt\<close> to 0 and
  \<open>authPromise\<close> to \<^verbatim>\<open>null\<close>. A \<^verbatim>\<open>getToken()\<close> that runs on the state \<^verbatim>\<open>clearToken()\<close>
  leaves, whatever the clock shows and whatever token was cached before, awaits a new promise
  and has posted one more login request.
\<close>

lemma clearToken_then_getToken:
  "map_of (tokenCache (clearToken s)) ''token'' = None
   \<and> tokenExpiresAt (clearToken s) = 0
   \<and> authPromise (clearToken s) = None
   \<and> getToken_sync cfg (clearToken s) t_get t_cmp =
       (Awaits (loginCalls s),
        (clearToken s)\<lparr>authPromise := Some (loginCalls s), loginCalls := Suc (loginCalls s)\<rparr>)"
  by (simp add: getToken_sync_cleared) (simp add: clearToken_def cache_delete_def delete_conv')

text \<open>
  C6. \<^verbatim>\<open>clearToken()\<close> sets \<open>authPromise\<close> to \<^verbatim>\<open>null\<close> (``Cancel any pending auth'') but the
  \<^verbatim>\<open>authenticate()\<close> that is in flight goes on: when its login request is answered it stores
  the token and sets \<open>tokenExpiresAt\<close>. A \<^verbatim>\<open>getToken()\<close> posts a login request (promise 0);
  \<^verbatim>\<open>clearToken()\<close> is called, after which no token is cached, \<open>tokenExpiresAt\<close> is 0 and no
  promise is held; the login request is answered with the token \<^verbatim>\<open>old\<close>; the next
  \<^verbatim>\<open>getToken()\<close> returns \<^verbatim>\<open>Bearer old\<close> from the cache and posts no login request.
\<close>

theorem C6_login_in_flight:
  "(let s1 = snd (getToken_sync default_auth_config new_AuthManager 0 0);
        s2 = clearToken s1;
        s3 = snd (settle default_auth_config s2 (LoginResolved (Some ''old'') None) 5 6)
    in authPromise s1 = Some 0 \<and> loginCalls s1 = 1
       \<and> map_of (tokenCache s2) ''token'' = None \<and> tokenExpiresAt s2 = 0 \<and> authPromise s2 = None
       \<and> getToken_sync default_auth_config s3 10 10 = (Cached ''Bearer old'', s3)
       \<and> loginCalls s3 = 1)"
  by (simp add: getToken_sync_def cache_get_def acquire_def new_AuthManager_def clearToken_def
      cache_delete_def settle_def authenticate_complete_def js_or_def startsWith_def
      cache_set_def default_auth_config_def Let_def)

text \<open>
  C7 (as the code has it). A rejected login request surfaces \<^verbatim>\<open>Invalid credentials\<close> when
  it is an axios error whose response has status 401,
  \<^verbatim>\<open>Authentication failed: <message>\<close> when it is any other axios error, and the caught
  error itself, unchanged, when it is not an axios error; a login response without a token
  surfaces \<^verbatim>\<open>No token received from authentication endpoint\<close>. Whatever the outcome,
  \<open>authPromise\<close> is \<^verbatim>\<open>null\<close> afterwards, a failure leaves the cache and \<open>tokenExpiresAt\<close>
  as they were, and the next \<^verbatim>\<open>getToken()\<close> that finds no valid cached token posts a new
  login request.
\<close>

theorem C7_failed_acquisition:
  "settle cfg s (LoginRejected e) t_set t_exp =
     (Inl (if isAxiosError e
           then (if response_status e = Some 401 then new_Error ''Invalid credentials''
                 else new_Error (''Authentication failed: '' @ message e))
           else e),
      s\<lparr>authPromise := None\<rparr>)
   \<and> (\<not> truthy (js_or d h) \<longrightarrow>
        settle cfg s (LoginResolved d h) t_set t_exp =
          (Inl (new_Error ''No token received from authentication endpoint''),
           s\<lparr>authPromise := None\<rparr>))
   \<and> authPromise (snd (settle cfg s outcome t_set t_exp)) = None
   \<and> (\<not> token_fresh cfg (snd (settle cfg s outcome t_set t_exp)) t_get t_cmp \<longrightarrow>
        fst (getToken_sync cfg (snd (settle cfg s outcome t_set t_exp)) t_get t_cmp) =
          Awaits (loginCalls s)
        \<and> loginCalls (snd (getToken_sync cfg (snd (settle cfg s outcome t_set t_exp)) t_get t_cmp)) =
          Suc (loginCalls s))"
proof (intro conjI impI)
  show "settle cfg s (LoginRejected e) t_set t_exp =
     (Inl (if isAxiosError e
           then (if response_status e = Some 401 then new_Error ''Invalid credentials''
                 else new_Error (''Authentication failed: '' @ message e))
           else e),
      s\<lparr>authPromise := None\<rparr>)"
    by (simp add: settle_def authenticate_complete_def authenticate_catch_def)
next
  assume "\<not> truthy (js_or d h)"
  then show "settle cfg s (LoginResolved d h) t_set t_exp =
          (Inl (new_Error ''No token received from authentication endpoint''),
           s\<lparr>authPromise := None\<rparr>)"
    by (cases "js_or d h")
       (simp_all add: settle_def authenticate_complete_def authenticate_catch_def new_Error_def)
next
  let ?s' = "snd (settle cfg s outcome t_set t_exp)"
  show none: "authPromise ?s' = None"
    by (simp add: settle_def split: prod.splits)
  have calls: "loginCalls ?s' = loginCalls s"
    by (auto simp add: settle_def authenticate_complete_def Let_def
        split: prod.splits login_outcome.splits option.splits if_splits)
  assume nf: "\<not> token_fresh cfg ?s' t_get t_cmp"
  show "fst (getToken_sync cfg ?s' t_get t_cmp) = Awaits (loginCalls s)"
    using none calls by (simp add: getToken_sync_not_fresh [OF nf] acquire_result)
  show "loginCalls (snd (getToken_sync cfg ?s' t_get t_cmp)) = Suc (loginCalls s)"
    using none calls by (simp add: getToken_sync_not_fresh [OF nf] acquire_result)
qed

theorem C7_failed_acquisition_witness:
  "\<not> truthy (js_or (Some '''') None)
   \<and> settle default_auth_config new_AuthManager (LoginResolved (Some '''') None) 5 6 =
       (Inl (new_Error ''No token received from authentication endpoint''),
        new_AuthManager\<lparr>authPromise := None\<rparr>)
   \<and> \<not> token_fresh default_auth_config
         (snd (settle default_auth_config new_AuthManager (LoginRejected (new_Error ''x'')) 5 6)) 7 8
   \<and> fst (getToken_sync default_auth_config
         (snd (settle default_auth_config new_AuthManager (LoginRejected (new_Error ''x'')) 5 6)) 7 8) = Awaits 0"
proof -
  have f: "\<not> truthy (js_or (Some '''') None)" by (simp add: js_or_def)
  have nf: "\<not> token_fresh default_auth_config
         (snd (settle default_auth_config new_AuthManager (LoginRejected (new_Error ''x'')) 5 6)) 7 8"
    by (simp add: token_fresh_def settle_def authenticate_complete_def new_AuthManager_def
        cache_get_def)
  note inst = C7_failed_acquisition [where cfg = default_auth_config and s = new_AuthManager
      and d = "Some ''''" and h = None and t_set = 5 and t_exp = 6 and t_get = 7 and t_cmp = 8
      and outcome = "LoginRejected (new_Error ''x'')"]
  have a: "settle default_auth_config new_AuthManager (LoginResolved (Some '''') None) 5 6 =
       (Inl (new_Error ''No token received from authentication endpoint''),
        new_AuthManager\<lparr>authPromise := None\<rparr>)"
    using inst f by blast
  have b: "fst (getToken_sync default_auth_config
         (snd (settle default_auth_config new_AuthManager (LoginRejected (new_Error ''x'')) 5 6)) 7 8) =
       Awaits (loginCalls new_AuthManager)"
    using inst nf by blast
  show ?thesis using f nf a b by (simp add: new_AuthManager_def)
qed

text \<open>
  C7 as the specification states it fails for a login response that carries no token: the
  error surfaced is neither \<^verbatim>\<open>Invalid credentials\<close> nor an \<^verbatim>\<open>Authentication failed\<close> one.
\<close>

theorem C7_no_token_counterexample:
  "fst (settle default_auth_config new_AuthManager (LoginResolved None None) 5 6) =
     Inl (new_Error ''No token received from authentication endpoint'')
   \<and> \<not> startsWith ''No token received from authentication endpoint'' ''Authentication failed''
   \<and> ''No token received from authentication endpoint'' \<noteq> ''Invalid credentials''"
  by (simp add: settle_def authenticate_complete_def authenticate_catch_def js_or_def
      new_Error_def startsWith_def)




section \<open>Properties of the session registry\<close>

lemma close_idle_other:
  assumes "x \<noteq> sid"
  shows "map_of (transports (close_idle x st)) sid = map_of (transports st) sid
         \<and> (\<exists>evs. events (close_idle x st) = events st @ evs \<and> sid \<notin> event_session ` set evs)"
  using assms
  by (auto simp add: close_idle_def delete_conv' split: option.splits)

lemma fold_close_idle_other:
  assumes "sid \<notin> set xs"
  shows "map_of (transports (fold close_idle xs st)) sid = map_of (transports st) sid
         \<and> (\<exists>evs. events (fold close_idle xs st) = events st @ evs \<and> sid \<notin> event_session ` set evs)"
  using assms
proof (induction xs arbitrary: st)
  case Nil
  show ?case by simp
next
  case (Cons x xs)
  then have ne: "x \<noteq> sid" and notin: "sid \<notin> set xs" by auto
  from close_idle_other [OF ne, of st] obtain e1 where
    m1: "map_of (transports (close_idle x st)) sid = map_of (transports st) sid" and
    e1: "events (close_idle x st) = events st @ e1" "sid \<notin> event_session ` set e1"
    by blast
  from Cons.IH [OF notin, of "close_idle x st"] obtain e2 where
    m2: "map_of (transports (fold close_idle xs (close_idle x st))) sid =
         map_of (transports (close_idle x st)) sid" and
    e2: "events (fold close_idle xs (close_idle x st)) = events (close_idle x st) @ e2"
        "sid \<notin> event_session ` set e2"
    by blast
  have "events (fold close_idle (x # xs) st) = events st @ (e1 @ e2)"
    using e1 e2 by simp
  moreover have "sid \<notin> event_session ` set (e1 @ e2)" using e1 e2 by auto
  ultimately show ?case using m1 m2 by auto
qed

lemma close_idle_absent:
  "map_of (transports st) sid = None \<Longrightarrow> map_of (transports (close_idle x st)) sid = None"
  by (auto simp add: close_idle_def delete_conv' split: option.splits)

lemma fold_close_idle_absent:
  "map_of (transports st) sid = None \<Longrightarrow> map_of (transports (fold close_idle xs st)) sid = None"
  by (induction xs arbitrary: st) (simp_all add: close_idle_absent)

lemma registry_step_absent:
  assumes "map_of (transports st) sid = None" and "\<not> initializes sid op"
  shows "map_of (transports (registry_step st op)) sid = None"
  using assms
  by (cases op)
     (auto simp add: update_conv' delete_conv' cleanupIdleSessions_def fold_close_idle_absent
       split: option.splits)

lemma registry_steps_absent:
  assumes "map_of (transports st) sid = None" and "list_all (\<lambda>op. \<not> initializes sid op) ops"
  shows "map_of (transports (foldl registry_step st ops)) sid = None"
  using assms
  by (induction ops arbitrary: st) (simp_all add: registry_step_absent)

lemma takeWhile_skip:
  assumes "\<forall>e\<in>set pre. e \<noteq> b"
  shows "takeWhile (\<lambda>e. e \<noteq> b) (pre @ xs) = pre @ takeWhile (\<lambda>e. e \<noteq> b) xs"
  using assms by (induction pre) simp_all

lemma sessionsToClose_distinct:
  "wf_map m \<Longrightarrow> distinct (sessionsToClose m now tmo)"
  by (simp add: sessionsToClose_def wf_map_def distinct_map_filter)

lemma sessionsToClose_mem:
  assumes "map_of m sid = Some ti" and "now - lastActivity ti > tmo"
  shows "sid \<in> set (sessionsToClose m now tmo)"
proof -
  have "(sid, ti) \<in> set m" using assms(1) by (rule map_of_SomeD)
  then show ?thesis using assms(2) by (force simp add: sessionsToClose_def)
qed

lemma sessionsToClose_set:
  assumes "wf_map m"
  shows "sid \<in> set (sessionsToClose m now tmo) \<longleftrightarrow>
     (\<exists>ti. map_of m sid = Some ti \<and> now - lastActivity ti > tmo)"
proof -
  have "(sid, ti) \<in> set m \<longleftrightarrow> map_of m sid = Some ti" for ti
    using assms by (simp add: wf_map_def)
  then show ?thesis by (force simp add: sessionsToClose_def)
qed

text \<open>
  C4. A sweep at time \<open>now\<close>, with the session timeout \<open>tmo\<close> that is configured (thirty
  minutes, 1800000 ms, when none or 0 is configured), over a session of the map whose idle
  time \<open>now - lastActivity\<close> exceeds \<open>tmo\<close>: after the sweep the map does not hold the
  session; the sweep deleted its entry before it called \<^verbatim>\<open>close()\<close> on its server, which it
  does not await; and whatever happens to the map afterwards, the session is never found
  again unless a session is initialized under the same identifier. A session whose idle time
  does not exceed \<open>tmo\<close> stays in the map as it is.
\<close>

theorem C4_idle_sweep:
  assumes "wf_map (transports st)"
    and "map_of (transports st) sid = Some ti"
    and "tmo = (case configured of None \<Rightarrow> 30 * 60 * 1000
                | Some n \<Rightarrow> if n = 0 then 30 * 60 * 1000 else n)"
    and "now - lastActivity ti > tmo"
  shows "\<not> map_has (transports (cleanupIdleSessions configured now st)) sid
         \<and> (\<exists>evs. events (cleanupIdleSessions configured now st) = events st @ evs
                 \<and> removed_before_close sid (server ti) evs)
         \<and> (\<forall>ops. list_all (\<lambda>op. \<not> initializes sid op) ops \<longrightarrow>
               \<not> map_has (transports
                    (foldl registry_step (cleanupIdleSessions configured now st) ops)) sid)
         \<and> (\<forall>sid' ti'. map_of (transports st) sid' = Some ti' \<and> now - lastActivity ti' \<le> tmo \<longrightarrow>
               map_of (transports (cleanupIdleSessions configured now st)) sid' = Some ti')"
proof -
  have tmo: "sessionTimeout configured = tmo"
    using assms(3) by (simp add: sessionTimeout_def split: option.splits)
  let ?xs = "sessionsToClose (transports st) now (sessionTimeout configured)"
  have mem: "sid \<in> set ?xs" using assms(2,4) tmo by (simp add: sessionsToClose_mem)
  have dist: "distinct ?xs" using assms(1) by (rule sessionsToClose_distinct)
  from mem obtain pre post where split: "?xs = pre @ sid # post"
    by (meson split_list)
  with dist have npre: "sid \<notin> set pre" and npost: "sid \<notin> set post" by auto
  let ?st1 = "fold close_idle pre st"
  let ?st2 = "close_idle sid ?st1"
  let ?st3 = "fold close_idle post ?st2"
  have run: "cleanupIdleSessions configured now st = ?st3"
    by (simp add: cleanupIdleSessions_def split)
  from fold_close_idle_other [OF npre, of st] obtain e1 where
    m1: "map_of (transports ?st1) sid = Some ti" and
    e1: "events ?st1 = events st @ e1" "sid \<notin> event_session ` set e1"
    using assms(2) by auto
  have m2: "map_of (transports ?st2) sid = None"
    and e2: "events ?st2 = events st @ e1 @ [MapDelete sid, ServerClose sid (server ti)]"
    using m1 e1 by (simp_all add: close_idle_def delete_conv')
  from fold_close_idle_other [OF npost, of ?st2] obtain e3 where
    m3: "map_of (transports ?st3) sid = None" and
    e3: "events ?st3 = events ?st2 @ e3"
    using m2 by auto
  let ?evs = "e1 @ [MapDelete sid, ServerClose sid (server ti)] @ e3"
  have ev: "events ?st3 = events st @ ?evs" using e2 e3 by simp
  have "\<forall>e\<in>set e1. e \<noteq> ServerClose sid (server ti)"
    using e1(2) by force
  then have "takeWhile (\<lambda>e. e \<noteq> ServerClose sid (server ti)) ?evs = e1 @ [MapDelete sid]"
    by (simp add: takeWhile_skip)
  then have order: "removed_before_close sid (server ti) ?evs"
    by (simp add: removed_before_close_def)
  have later: "\<forall>ops. list_all (\<lambda>op. \<not> initializes sid op) ops \<longrightarrow>
      \<not> map_has (transports (foldl registry_step ?st3 ops)) sid"
    using registry_steps_absent [OF m3] by (simp add: map_has_def)
  have kept: "\<forall>sid' ti'. map_of (transports st) sid' = Some ti' \<and> now - lastActivity ti' \<le> tmo \<longrightarrow>
      map_of (transports (cleanupIdleSessions configured now st)) sid' = Some ti'"
  proof (intro allI impI)
    fix sid' ti'
    assume k: "map_of (transports st) sid' = Some ti' \<and> now - lastActivity ti' \<le> tmo"
    then have "sid' \<notin> set ?xs"
      using sessionsToClose_set [OF assms(1), of sid' now "sessionTimeout configured"] tmo
      by auto
    from fold_close_idle_other [OF this, of st] k
    show "map_of (transports (cleanupIdleSessions configured now st)) sid' = Some ti'"
      by (simp add: cleanupIdleSessions_def)
  qed
  have "\<not> map_has (transports ?st3) sid" using m3 by (simp add: map_has_def)
  moreover have "\<exists>evs. events ?st3 = events st @ evs \<and> removed_before_close sid (server ti) evs"
    using ev order by blast
  ultimately show ?thesis using later kept unfolding run by blast
qed

theorem C4_idle_sweep_witness:
  "wf_map (transports two_sessions)
   \<and> \<not> map_has (transports (cleanupIdleSessions (Some 60000) 100000 two_sessions)) ''a''
   \<and> map_has (transports (cleanupIdleSessions (Some 60000) 100000 two_sessions)) ''b''
   \<and> events (cleanupIdleSessions (Some 60000) 100000 two_sessions)
       = [MapDelete ''a'', ServerClose ''a'' 0]
   \<and> \<not> map_has (transports (foldl registry_step (cleanupIdleSessions (Some 60000) 100000 two_sessions)
         [Touch ''a'' 100001, SessionRemoved ''a''])) ''a''
   \<and> \<not> map_has (transports (cleanupIdleSessions None 2000000 two_sessions)) ''a''
   \<and> \<not> map_has (transports (cleanupIdleSessions None 2000000 two_sessions)) ''b''
   \<and> \<not> map_has (transports (cleanupIdleSessions None 1850000 two_sessions)) ''a''
   \<and> map_has (transports (cleanupIdleSessions None 1850000 two_sessions)) ''b''"
proof -
  let ?ta = "\<lparr>transport = 0, server = 0, lastActivity = 0\<rparr>"
  let ?tb = "\<lparr>transport = 1, server = 1, lastActivity = 90000\<rparr>"
  have wf: "wf_map (transports two_sessions)" by (simp add: wf_map_def two_sessions_def)
  have la: "map_of (transports two_sessions) ''a'' = Some ?ta" by (simp add: two_sessions_def)
  have lb: "map_of (transports two_sessions) ''b'' = Some ?tb" by (simp add: two_sessions_def)
  have t1: "(60000::int) = (case Some 60000 of None \<Rightarrow> 30 * 60 * 1000
                | Some n \<Rightarrow> if n = 0 then 30 * 60 * 1000 else n)" by simp
  have t2: "(1800000::int) = (case None of None \<Rightarrow> 30 * 60 * 1000
                | Some n \<Rightarrow> if n = 0 then 30 * 60 * 1000 else n)" by simp
  have ia: "100000 - lastActivity ?ta > 60000" by simp
  have ops: "list_all (\<lambda>op. \<not> initializes ''a'' op) [Touch ''a'' 100001, SessionRemoved ''a'']"
    by simp
  note configured = C4_idle_sweep [OF wf la t1 ia]
  have gone: "\<not> map_has (transports (cleanupIdleSessions (Some 60000) 100000 two_sessions)) ''a''"
    using configured by blast
  have stays: "\<not> map_has (transports (foldl registry_step
      (cleanupIdleSessions (Some 60000) 100000 two_sessions)
      [Touch ''a'' 100001, SessionRemoved ''a''])) ''a''"
    using configured ops by blast
  have "map_of (transports (cleanupIdleSessions (Some 60000) 100000 two_sessions)) ''b'' = Some ?tb"
    using configured lb by simp
  then have kept: "map_has (transports (cleanupIdleSessions (Some 60000) 100000 two_sessions)) ''b''"
    by (simp add: map_has_def)
  have ia2: "2000000 - lastActivity ?ta > 1800000" by simp
  have ib2: "2000000 - lastActivity ?tb > 1800000" by simp
  have gone_a: "\<not> map_has (transports (cleanupIdleSessions None 2000000 two_sessions)) ''a''"
    using C4_idle_sweep [OF wf la t2 ia2] by blast
  have gone_b: "\<not> map_has (transports (cleanupIdleSessions None 2000000 two_sessions)) ''b''"
    using C4_idle_sweep [OF wf lb t2 ib2] by blast
  have ia3: "1850000 - lastActivity ?ta > 1800000" by simp
  note by_default = C4_idle_sweep [OF wf la t2 ia3]
  have default_gone: "\<not> map_has (transports (cleanupIdleSessions None 1850000 two_sessions)) ''a''"
    using by_default by blast
  have "map_of (transports (cleanupIdleSessions None 1850000 two_sessions)) ''b'' = Some ?tb"
    using by_default lb by simp
  then have default_keeps: "map_has (transports (cleanupIdleSessions None 1850000 two_sessions)) ''b''"
    by (simp add: map_has_def)
  have log: "events (cleanupIdleSessions (Some 60000) 100000 two_sessions)
       = [MapDelete ''a'', ServerClose ''a'' 0]"
    by (simp add: cleanupIdleSessions_def sessionsToClose_def sessionTimeout_def two_sessions_def
        close_idle_def)
  show ?thesis using wf gone kept log stays gone_a gone_b default_gone default_keeps by simp
qed

lemma fold_close_idle_events:
  "set (events st) \<subseteq> set (events (fold close_idle xs st))"
proof (induction xs arbitrary: st)
  case Nil
  show ?case by simp
next
  case (Cons x xs)
  have "set (events st) \<subseteq> set (events (close_idle x st))"
    by (auto simp add: close_idle_def split: option.splits)
  with Cons.IH [of "close_idle x st"] show ?case by auto
qed

lemma registry_step_events:
  "set (events st) \<subseteq> set (events (registry_step st op))"
  by (cases op)
     (auto simp add: cleanupIdleSessions_def split: option.splits
       intro: subsetD [OF fold_close_idle_events])

lemma registry_steps_events:
  "set (events st) \<subseteq> set (events (foldl registry_step st ops))"
proof (induction ops arbitrary: st)
  case Nil
  show ?case by simp
next
  case (Cons op ops)
  from registry_step_events [of st op] Cons.IH [of "registry_step st op"]
  show ?case by auto
qed

text \<open>
  C9. \<^verbatim>\<open>DELETE /mcp\<close> answers 400 when the session header is missing (or empty), 404 when
  it names a session the map does not hold, and in both cases changes nothing. When it names
  a session of the map it calls \<^verbatim>\<open>close()\<close> on the server of that session, answers 204, and
  the map no longer holds the session afterwards, whatever ran while \<^verbatim>\<open>close()\<close> was
  awaited.
\<close>

theorem C9_delete_mcp:
  "((sessionId = None \<or> sessionId = Some []) \<longrightarrow> delete_mcp sessionId during st = (400, st))
   \<and> (\<forall>sid. sessionId = Some sid \<and> sid \<noteq> [] \<and> \<not> map_has (transports st) sid \<longrightarrow>
         delete_mcp sessionId during st = (404, st))
   \<and> (\<forall>sid ti. sessionId = Some sid \<and> sid \<noteq> [] \<and> map_of (transports st) sid = Some ti \<longrightarrow>
         fst (delete_mcp sessionId during st) = 204
         \<and> ServerClose sid (server ti) \<in> set (events (snd (delete_mcp sessionId during st)))
         \<and> \<not> map_has (transports (snd (delete_mcp sessionId during st))) sid)"
proof (intro conjI allI impI)
  assume "sessionId = None \<or> sessionId = Some []"
  then show "delete_mcp sessionId during st = (400, st)"
    by (auto simp add: delete_mcp_def)
next
  fix sid
  assume "sessionId = Some sid \<and> sid \<noteq> [] \<and> \<not> map_has (transports st) sid"
  then show "delete_mcp sessionId during st = (404, st)"
    by (simp add: delete_mcp_def)
next
  fix sid ti
  assume h: "sessionId = Some sid \<and> sid \<noteq> [] \<and> map_of (transports st) sid = Some ti"
  let ?st1 = "st\<lparr>events := events st @ [ServerClose sid (server ti)]\<rparr>"
  let ?st2 = "foldl registry_step ?st1 during"
  let ?st3 = "?st2\<lparr>transports := AList.delete sid (transports ?st2),
                   events := events ?st2 @ [MapDelete sid]\<rparr>"
  have run: "delete_mcp sessionId during st = (204, ?st3)"
    using h by (simp add: delete_mcp_def map_has_def Let_def)
  show "fst (delete_mcp sessionId during st) = 204" by (simp add: run)
  have "ServerClose sid (server ti) \<in> set (events ?st1)" by simp
  then have "ServerClose sid (server ti) \<in> set (events ?st2)"
    using registry_steps_events [of ?st1 during] by blast
  then show "ServerClose sid (server ti) \<in> set (events (snd (delete_mcp sessionId during st)))"
    by (simp add: run)
  show "\<not> map_has (transports (snd (delete_mcp sessionId during st))) sid"
    by (simp add: run map_has_def delete_conv')
qed

theorem C9_delete_mcp_witness:
  "delete_mcp None [] \<lparr>transports = [(''a'', \<lparr>transport = 0, server = 7, lastActivity = 0\<rparr>)],
                       events = []\<rparr>
     = (400, \<lparr>transports = [(''a'', \<lparr>transport = 0, server = 7, lastActivity = 0\<rparr>)], events = []\<rparr>)
   \<and> delete_mcp (Some ''b'') [] \<lparr>transports = [(''a'', \<lparr>transport = 0, server = 7, lastActivity = 0\<rparr>)],
                       events = []\<rparr>
     = (404, \<lparr>transports = [(''a'', \<lparr>transport = 0, server = 7, lastActivity = 0\<rparr>)], events = []\<rparr>)
   \<and> fst (delete_mcp (Some ''a'') [Touch ''a'' 5]
         \<lparr>transports = [(''a'', \<lparr>transport = 0, server = 7, lastActivity = 0\<rparr>)], events = []\<rparr>) = 204
   \<and> \<not> map_has (transports (snd (delete_mcp (Some ''a'') [Touch ''a'' 5]
         \<lparr>transports = [(''a'', \<lparr>transport = 0, server = 7, lastActivity = 0\<rparr>)], events = []\<rparr>))) ''a''"
proof -
  let ?ta = "\<lparr>transport = 0, server = 7, lastActivity = 0\<rparr>"
  let ?st = "\<lparr>transports = [(''a'', ?ta)], events = []\<rparr>"
  have a: "delete_mcp None [] ?st = (400, ?st)"
    using C9_delete_mcp [of None "[]" ?st] by blast
  have "Some ''b'' = Some ''b'' \<and> ''b'' \<noteq> [] \<and> \<not> map_has (transports ?st) ''b''"
    by (simp add: map_has_def)
  then have b: "delete_mcp (Some ''b'') [] ?st = (404, ?st)"
    using C9_delete_mcp [of "Some ''b''" "[]" ?st] by blast
  have "Some ''a'' = Some ''a'' \<and> ''a'' \<noteq> [] \<and> map_of (transports ?st) ''a'' = Some ?ta"
    by simp
  then have c: "fst (delete_mcp (Some ''a'') [Touch ''a'' 5] ?st) = 204
      \<and> \<not> map_has (transports (snd (delete_mcp (Some ''a'') [Touch ''a'' 5] ?st))) ''a''"
    using C9_delete_mcp [of "Some ''a''" "[Touch ''a'' 5]" ?st] by blast
  show ?thesis using a b c by simp
qed

section \<open>Properties of the closest reference value\<close>

lemma levenshtein_Nil2 [simp]: "levenshtein xs [] = length xs"
  by (cases xs) simp_all


























section \<open>Properties of the API client\<close>

lemma settle_received:
  assumes "received_token outcome = Some tok"
  shows "settle cfg s outcome t_set t_exp =
     (Inr tok,
      s\<lparr>tokenCache := cache_set (tokenCache s) ''token'' tok (authTokenTTL cfg) t_set,
        tokenExpiresAt := t_exp + authTokenTTL cfg,
        authPromise := None\<rparr>)"
  using assms
  by (auto simp add: received_token_def settle_def authenticate_complete_def Let_def
      split: login_outcome.splits option.splits if_splits)

lemma client_getToken_dispatched:
  "dispatched (snd (client_getToken w cs)) = dispatched cs"
  by (auto simp add: client_getToken_def Let_def split: prod.splits token_wait.splits)

text \<open>After \<^verbatim>\<open>clearToken()\<close> the token comes from a new login request.\<close>

lemma client_getToken_cleared:
  assumes "received_token (login_answer w (loginCalls (auth cs))) = Some tok"
  shows "\<exists>cs'. client_getToken w (cs\<lparr>auth := clearToken (auth cs)\<rparr>) = (Inr tok, cs')
           \<and> dispatched cs' = dispatched cs
           \<and> (\<exists>e. map_of (tokenCache (auth cs')) ''token'' = Some e \<and> entryValue e = tok)
           \<and> authPromise (auth cs') = None
           \<and> loginCalls (auth cs') = Suc (loginCalls (auth cs))"
  by (simp add: client_getToken_def Let_def getToken_sync_cleared settle_received [OF assms]
      cache_set_def update_conv')

text \<open>With a token in the cache and no acquisition in flight, the token is the cached one or comes from a new login request.\<close>

lemma client_getToken_cached_or_new:
  assumes "map_of (tokenCache (auth cs)) ''token'' = Some e"
    and "authPromise (auth cs) = None"
    and "received_token (login_answer w (loginCalls (auth cs))) = Some tok"
  shows "\<exists>t cs'. client_getToken w cs = (Inr t, cs')
           \<and> (t = entryValue e \<or> t = tok)
           \<and> dispatched cs' = dispatched cs
           \<and> loginCalls (auth cs) \<le> loginCalls (auth cs')"
proof -
  let ?n = "clock_reads cs"
  let ?t1 = "clock w ?n" and ?t2 = "clock w (Suc ?n)"
  show ?thesis
  proof (cases "token_fresh (authConfig w) (auth cs) ?t1 ?t2")
    case True
    from getToken_sync_fresh [OF True] obtain c where
      hit: "fst (cache_get (tokenCache (auth cs)) ''token'' ?t1) = Some c" and
      sync: "getToken_sync (authConfig w) (auth cs) ?t1 ?t2 =
        (Cached c, (auth cs)\<lparr>tokenCache := snd (cache_get (tokenCache (auth cs)) ''token'' ?t1)\<rparr>)"
      by blast
    from hit assms(1) have "c = entryValue e"
      by (auto simp add: cache_get_def split: if_splits)
    then show ?thesis using sync
      by (simp add: client_getToken_def Let_def)
  next
    case False
    let ?a0 = "(auth cs)\<lparr>tokenCache := snd (cache_get (tokenCache (auth cs)) ''token'' ?t1)\<rparr>"
    have sync: "getToken_sync (authConfig w) (auth cs) ?t1 ?t2 =
        (Awaits (loginCalls (auth cs)),
         ?a0\<lparr>authPromise := Some (loginCalls (auth cs)), loginCalls := Suc (loginCalls (auth cs))\<rparr>)"
      using assms(2) by (simp add: getToken_sync_not_fresh [OF False] acquire_def Let_def)
    show ?thesis using sync
      by (simp add: client_getToken_def Let_def settle_received [OF assms(3)])
  qed
qed

lemma ensure_timeout_fields [simp]:
  "url (ensure_timeout w config) = url config"
  "Authorization (ensure_timeout w config) = Authorization config"
  by (simp_all add: ensure_timeout_def split: option.splits)

lemma request_fulfilled_url:
  assumes "request_fulfilled w cs config = (Inr config1, cs1)"
  shows "url config1 = url config"
  using assms
  by (auto simp add: request_fulfilled_def split: if_splits prod.splits sum.splits)

lemma handler_unauthorized:
  assumes "unauthorized error" and "not_login_url (Some config1)"
    and "\<not> truthy (X_Retry config1)"
    and "received_token (login_answer w (loginCalls (auth cs2))) = Some tok"
  shows "\<exists>cs3. response_rejected w cs2 error (Some config1) =
             (Inr (config1\<lparr>X_Retry := Some ''true'', Authorization := Some tok\<rparr>), cs3)
           \<and> dispatched cs3 = dispatched cs2
           \<and> (\<exists>e. map_of (tokenCache (auth cs3)) ''token'' = Some e \<and> entryValue e = tok)
           \<and> authPromise (auth cs3) = None
           \<and> loginCalls (auth cs3) = Suc (loginCalls (auth cs2))"
proof -
  from client_getToken_cleared [OF assms(4)] obtain cs3 where
    get: "client_getToken w (cs2\<lparr>auth := clearToken (auth cs2)\<rparr>) = (Inr tok, cs3)" and
    rest: "dispatched cs3 = dispatched cs2"
      "\<exists>e. map_of (tokenCache (auth cs3)) ''token'' = Some e \<and> entryValue e = tok"
      "authPromise (auth cs3) = None"
      "loginCalls (auth cs3) = Suc (loginCalls (auth cs2))"
    by blast
  have "response_rejected w cs2 error (Some config1) =
      (Inr (config1\<lparr>X_Retry := Some ''true'', Authorization := Some tok\<rparr>), cs3)"
    using assms(1,2,3) get
    by (simp add: response_rejected_def unauthorized_def reclassified_def Let_def)
  with rest show ?thesis by blast
qed

lemma handler_no_retry:
  assumes "truthy (X_Retry config)"
  shows "\<exists>e cs'. response_rejected w cs error (Some config) = (Inl e, cs')
           \<and> dispatched cs' = dispatched cs
           \<and> loginCalls (auth cs') = loginCalls (auth cs)
           \<and> (\<not> reclassified error \<longrightarrow> e = error)"
  using assms
  by (auto simp add: response_rejected_def reclassified_def Let_def clearToken_def
      split: option.splits)

lemma retry_fulfilled:
  assumes "map_of (tokenCache (auth cs)) ''token'' = Some e"
    and "authPromise (auth cs) = None"
    and "received_token (login_answer w (loginCalls (auth cs))) = Some tok"
    and "Authorization config = Some (entryValue e)"
  shows "\<exists>config2 cs'. request_fulfilled w cs config = (Inr config2, cs')
           \<and> url config2 = url config \<and> X_Retry config2 = X_Retry config
           \<and> (Authorization config2 = Some (entryValue e) \<or> Authorization config2 = Some tok)
           \<and> dispatched cs' = dispatched cs
           \<and> loginCalls (auth cs) \<le> loginCalls (auth cs')"
proof (cases "needs_token config")
  case True
  from client_getToken_cached_or_new [OF assms(1,2,3)] obtain t cs' where
    "client_getToken w cs = (Inr t, cs')" "t = entryValue e \<or> t = tok"
    "dispatched cs' = dispatched cs" "loginCalls (auth cs) \<le> loginCalls (auth cs')"
    by blast
  with True show ?thesis
    by (auto simp add: request_fulfilled_def)
next
  case False
  with assms(4) show ?thesis
    by (simp add: request_fulfilled_def)
qed

text \<open>
  C8. A call whose URL is not the login endpoint, not yet marked \<^verbatim>\<open>X-Retry\<close>, is
  dispatched and rejected with a 401 response, and login requests are answered with tokens.
  Then the call is dispatched exactly once more, as the same request marked \<^verbatim>\<open>X-Retry\<close>,
  with an \<^verbatim>\<open>Authorization\<close> header that is the token of a login request posted after the
  rejection (the cached token was cleared, so at least one such login request is posted).
  The answer to that second dispatch is the outcome of the call: its response, or, when it
  is rejected again, an error (the rejection itself unless the handler reports it as a
  timeout or a network error), with no third dispatch.
\<close>

theorem C8_unauthorized_retry:
  assumes "\<not> truthy (X_Retry config)" and "not_login_url (Some config)"
    and "request_fulfilled w cs config = (Inr config1, cs1)"
    and "api_answer w (length (dispatched cs1)) = Inl error" and "unauthorized error"
    and "\<forall>p. loginCalls (auth cs1) \<le> p \<longrightarrow> received_token (login_answer w p) \<noteq> None"
  shows "\<exists>config2.
      dispatched (snd (request w cs config)) = dispatched cs1 @ [config1, config2]
      \<and> url config2 = url config \<and> truthy (X_Retry config2)
      \<and> (\<exists>p. loginCalls (auth cs1) \<le> p
              \<and> Authorization config2 = received_token (login_answer w p))
      \<and> loginCalls (auth cs1) < loginCalls (auth (snd (request w cs config)))
      \<and> (case api_answer w (Suc (length (dispatched cs1))) of
            Inr response \<Rightarrow> fst (request w cs config) = Inr response
          | Inl error2 \<Rightarrow>
              (\<exists>e. fst (request w cs config) = Inl e \<and> (\<not> reclassified error2 \<longrightarrow> e = error2)))"
proof -
  let ?N = "loginCalls (auth cs1)"
  let ?cs2 = "cs1\<lparr>dispatched := dispatched cs1 @ [config1]\<rparr>"
  obtain tok1 where tok1: "received_token (login_answer w ?N) = Some tok1"
    using assms(6) by fastforce
  obtain tok2 where tok2: "received_token (login_answer w (Suc ?N)) = Some tok2"
    using assms(6) by fastforce
  have x1: "\<not> truthy (X_Retry config1)"
    using assms(1) request_fulfilled_X_Retry [OF assms(3)] by simp
  have u1: "url config1 = url config" using assms(3) by (rule request_fulfilled_url)
  have nl: "not_login_url (Some config1)" using assms(2) u1 by (simp add: not_login_url_def)
  let ?c' = "config1\<lparr>X_Retry := Some ''true'', Authorization := Some tok1\<rparr>"
  from handler_unauthorized [OF assms(5) nl x1, of w ?cs2 tok1] tok1 obtain cs3 where
    h: "response_rejected w ?cs2 error (Some config1) = (Inr ?c', cs3)" and
    d3: "dispatched cs3 = dispatched cs1 @ [config1]" and
    c3: "\<exists>e. map_of (tokenCache (auth cs3)) ''token'' = Some e \<and> entryValue e = tok1" and
    p3: "authPromise (auth cs3) = None" and
    l3: "loginCalls (auth cs3) = Suc ?N"
    by auto
  have pass1: "request_pass w cs config = (Inr ?c', cs3)"
    using assms(3,4) h by (simp add: request_pass_def Let_def)
  from c3 obtain e where e: "map_of (tokenCache (auth cs3)) ''token'' = Some e" "entryValue e = tok1"
    by blast
  have "received_token (login_answer w (loginCalls (auth cs3))) = Some tok2"
    using tok2 l3 by simp
  from retry_fulfilled [OF e(1) p3 this, of ?c'] e(2) obtain config2 cs4 where
    f2: "request_fulfilled w cs3 ?c' = (Inr config2, cs4)" and
    u2: "url config2 = url config1" and
    x2: "X_Retry config2 = Some ''true''" and
    a2: "Authorization config2 = Some tok1 \<or> Authorization config2 = Some tok2" and
    d4: "dispatched cs4 = dispatched cs3" and
    l4: "loginCalls (auth cs3) \<le> loginCalls (auth cs4)"
    by auto
  let ?cs5 = "cs4\<lparr>dispatched := dispatched cs4 @ [config2]\<rparr>"
  have len: "length (dispatched cs4) = Suc (length (dispatched cs1))"
    using d4 d3 by simp
  have tx2: "truthy (X_Retry config2)" using x2 by simp
  have auth2: "\<exists>p. ?N \<le> p \<and> Authorization config2 = received_token (login_answer w p)"
  proof (cases "Authorization config2 = Some tok1")
    case True
    then show ?thesis using tok1 by auto
  next
    case False
    with a2 have "Authorization config2 = received_token (login_answer w (Suc ?N))"
      using tok2 by simp
    then show ?thesis using le_SucI by blast
  qed
  show ?thesis
  proof (cases "api_answer w (Suc (length (dispatched cs1)))")
    case (Inr response)
    have pass2: "request_pass w cs3 ?c' = (Inl (Inr response), ?cs5)"
      using f2 Inr len by (simp add: request_pass_def Let_def)
    have run: "request w cs config = (Inr response, ?cs5)"
      using pass1 pass2 by simp
    have "dispatched ?cs5 = dispatched cs1 @ [config1, config2]" using d4 d3 by simp
    moreover have "?N < loginCalls (auth ?cs5)" using l3 l4 by simp
    ultimately show ?thesis using run u2 u1 tx2 auth2 Inr by auto
  next
    case (Inl error2)
    from handler_no_retry [OF tx2, of w ?cs5 error2] obtain e' cs6 where
      h2: "response_rejected w ?cs5 error2 (Some config2) = (Inl e', cs6)" and
      d6: "dispatched cs6 = dispatched ?cs5" and
      l6: "loginCalls (auth cs6) = loginCalls (auth ?cs5)" and
      same: "\<not> reclassified error2 \<longrightarrow> e' = error2"
      by blast
    have pass2: "request_pass w cs3 ?c' = (Inl (Inl e'), cs6)"
      using f2 Inl len h2 by (simp add: request_pass_def Let_def)
    have run: "request w cs config = (Inl e', cs6)"
      using pass1 pass2 by simp
    have "dispatched cs6 = dispatched cs1 @ [config1, config2]" using d6 d4 d3 by simp
    moreover have "?N < loginCalls (auth cs6)" using l6 l3 l4 by simp
    ultimately show ?thesis using run u2 u1 tx2 auth2 Inl same by auto
  qed
qed

theorem C8_unauthorized_retry_witness:
  "\<not> truthy (X_Retry data_request)
   \<and> not_login_url (Some data_request)
   \<and> unauthorized unauthorized_error
   \<and> length (dispatched (snd (request rejecting_world new_EfecteApiClient data_request))) = 2
   \<and> fst (request rejecting_world new_EfecteApiClient data_request) = Inl unauthorized_error"
proof -
  let ?c1 = "\<lparr>url = Some ''/dc/incident/data'', timeout = Some 30000,
               Authorization = Some ''Bearer abc'', X_Retry = None\<rparr>"
  let ?s1 = "\<lparr>auth = \<lparr>tokenCache = [(''token'', \<lparr>entryValue = ''Bearer abc'', expiresAt = 3300002\<rparr>)],
                       tokenExpiresAt = 3300003, authPromise = None, loginCalls = 1\<rparr>,
               dispatched = [], clock_reads = 4\<rparr>"
  have a1: "\<not> truthy (X_Retry data_request)" by (simp add: data_request_def)
  have a2: "not_login_url (Some data_request)"
    by (simp add: data_request_def not_login_url_def startsWith_def)
  have a3: "request_fulfilled rejecting_world new_EfecteApiClient data_request = (Inr ?c1, ?s1)"
    by (simp add: request_fulfilled_def needs_token_def data_request_def startsWith_def
        client_getToken_def new_EfecteApiClient_def new_AuthManager_def getToken_sync_def
        cache_get_def acquire_def settle_def authenticate_complete_def js_or_def
        rejecting_world_def default_auth_config_def cache_set_def ensure_timeout_def Let_def)
  have a4: "api_answer rejecting_world (length (dispatched ?s1)) = Inl unauthorized_error"
    by (simp add: rejecting_world_def)
  have a5: "unauthorized unauthorized_error"
    by (simp add: unauthorized_def reclassified_def unauthorized_error_def startsWith_def)
  have a6: "\<forall>p. loginCalls (auth ?s1) \<le> p \<longrightarrow>
      received_token (login_answer rejecting_world p) \<noteq> None"
    by (simp add: rejecting_world_def received_token_def js_or_def)
  from C8_unauthorized_retry [OF a1 a2 a3 a4 a5 a6] obtain config2 e where
    d: "dispatched (snd (request rejecting_world new_EfecteApiClient data_request)) =
          dispatched ?s1 @ [?c1, config2]" and
    r: "fst (request rejecting_world new_EfecteApiClient data_request) = Inl e"
       "\<not> reclassified unauthorized_error \<longrightarrow> e = unauthorized_error"
    by (auto simp add: rejecting_world_def)
  from d have "length (dispatched (snd (request rejecting_world new_EfecteApiClient data_request))) = 2"
    by simp
  moreover from r a5 have "fst (request rejecting_world new_EfecteApiClient data_request)
      = Inl unauthorized_error"
    by (simp add: unauthorized_def)
  ultimately show ?thesis using a1 a2 a5 by simp
qed

lemma request_fulfilled_dispatched:
  "dispatched (snd (request_fulfilled w cs config)) = dispatched cs"
  using client_getToken_dispatched [of w cs]
  by (auto simp add: request_fulfilled_def split: prod.splits sum.splits)

lemma response_rejected_dispatched:
  "dispatched (snd (response_rejected w cs error error_config)) = dispatched cs"
  using client_getToken_dispatched [of w "cs\<lparr>auth := clearToken (auth cs)\<rparr>"]
  by (auto simp add: response_rejected_def Let_def split: option.splits prod.splits sum.splits)

lemma request_pass_dispatched:
  "length (dispatched (snd (request_pass w cs config))) \<le> Suc (length (dispatched cs))"
proof -
  obtain r cs1 where f: "request_fulfilled w cs config = (r, cs1)" by fastforce
  then have d1: "dispatched cs1 = dispatched cs"
    using request_fulfilled_dispatched [of w cs config] by simp
  show ?thesis
  proof (cases r)
    case (Inl error)
    obtain r' cs2 where h: "response_rejected w cs1 error None = (r', cs2)" by fastforce
    then have "dispatched cs2 = dispatched cs1"
      using response_rejected_dispatched [of w cs1 error None] by simp
    with f Inl h d1 show ?thesis
      by (cases r') (simp_all add: request_pass_def)
  next
    case (Inr config1)
    let ?cs2 = "cs1\<lparr>dispatched := dispatched cs1 @ [config1]\<rparr>"
    show ?thesis
    proof (cases "api_answer w (length (dispatched cs1))")
      case (Inr response)
      with f \<open>r = Inr config1\<close> d1 show ?thesis
        by (simp add: request_pass_def Let_def)
    next
      case (Inl error)
      obtain r' cs3 where h: "response_rejected w ?cs2 error (Some config1) = (r', cs3)"
        by fastforce
      then have "dispatched cs3 = dispatched ?cs2"
        using response_rejected_dispatched [of w ?cs2 error "Some config1"] by simp
      with f \<open>r = Inr config1\<close> Inl h d1 show ?thesis
        by (cases r') (simp_all add: request_pass_def Let_def)
    qed
  qed
qed

text \<open>Whatever the answers, a call is dispatched at most twice.\<close>

lemma request_at_most_one_retry:
  "length (dispatched (snd (request w cs config))) \<le> length (dispatched cs) + 2"
proof -
  obtain r cs' where p: "request_pass w cs config = (r, cs')" by fastforce
  then have b1: "length (dispatched cs') \<le> Suc (length (dispatched cs))"
    using request_pass_dispatched [of w cs config] by simp
  show ?thesis
  proof (cases r)
    case (Inl outcome)
    with p b1 show ?thesis by simp
  next
    case (Inr config')
    with p have retry: "truthy (X_Retry config')"
      using request_pass_retry by blast
    obtain r2 cs2 where p2: "request_pass w cs' config' = (r2, cs2)" by fastforce
    then have b2: "length (dispatched cs2) \<le> Suc (length (dispatched cs'))"
      using request_pass_dispatched [of w cs' config'] by simp
    have "\<exists>outcome. r2 = Inl outcome"
    proof (cases r2)
      case (Inl outcome)
      then show ?thesis by simp
    next
      case (Inr config'')
      with p2 retry show ?thesis using request_pass_retry by blast
    qed
    then obtain outcome where "r2 = Inl outcome" by blast
    with p Inr p2 have "request w cs config = (outcome, cs2)" by simp
    with b1 b2 show ?thesis by simp
  qed
qed

end
